theory Spec2Isabelle
  imports Main "HOL-Library.Product_Lexorder" "HOL-Library.Multiset"
begin

section \<open>Values of the program\<close>

text \<open>
  \<^verbatim>\<open>ecwid_sync.py\<close> works on what \<^verbatim>\<open>response.json()\<close> returns: dictionaries,
  lists, strings, integers, booleans and \<^verbatim>\<open>None\<close>, read with \<^verbatim>\<open>.get\<close>, tested for
  truthiness and iterated over. The model keeps that shape. A \<open>JObj\<close> holds the items of
  a dict (distinct keys, insertion order). JSON numbers with a fraction are floating
  point and are not part of the model.

  A Python string is a list of code points; a \<open>char\<close> of the model is a code point
  below 256 (Latin-1). Code points above 255 are outside the model.
\<close>

datatype json =
    JNull
  | JBool bool
  | JInt int
  | JStr string
  | JArr "json list"
  | JObj "(string \<times> json) list"

datatype py_error =
    AttributeError
  | TypeError
  | ValueError
  | OverflowError
  | ConnectionError
  | HTTPError
  | JSONDecodeError
  | APIError

text \<open>Truthiness, as \<^verbatim>\<open>if x\<close> and \<^verbatim>\<open>not x\<close> read a value.\<close>

fun truthy :: "json \<Rightarrow> bool" where
  "truthy JNull = False"
| "truthy (JBool b) = b"
| "truthy (JInt n) = (n \<noteq> 0)"
| "truthy (JStr s) = (s \<noteq> [])"
| "truthy (JArr xs) = (xs \<noteq> [])"
| "truthy (JObj kvs) = (kvs \<noteq> [])"

text \<open>\<^verbatim>\<open>d.get(key, default)\<close>: only a dict has the method.\<close>

fun py_get :: "json \<Rightarrow> string \<Rightarrow> json \<Rightarrow> py_error + json" where
  "py_get (JObj kvs) k dflt = Inr (case map_of kvs k of None \<Rightarrow> dflt | Some v \<Rightarrow> v)"
| "py_get _ k dflt = Inl AttributeError"

text \<open>\<^verbatim>\<open>len(x)\<close>.\<close>

fun py_len :: "json \<Rightarrow> py_error + nat" where
  "py_len (JStr s) = Inr (length s)"
| "py_len (JArr xs) = Inr (length xs)"
| "py_len (JObj kvs) = Inr (length kvs)"
| "py_len _ = Inl TypeError"

text \<open>
  The elements \<^verbatim>\<open>for x in v\<close> visits: the elements of a list, the characters of a
  string, the keys of a dict; anything else is not iterable.
\<close>

fun py_iter :: "json \<Rightarrow> py_error + json list" where
  "py_iter (JArr xs) = Inr xs"
| "py_iter (JStr s) = Inr (map (\<lambda>c. JStr [c]) s)"
| "py_iter (JObj kvs) = Inr (map (\<lambda>kv. JStr (fst kv)) kvs)"
| "py_iter _ = Inl TypeError"

text \<open>\<^verbatim>\<open>x > n\<close> for an integer \<open>n\<close>: defined on integers and booleans (\<^verbatim>\<open>True == 1\<close>).\<close>

fun py_gt_int :: "json \<Rightarrow> int \<Rightarrow> py_error + bool" where
  "py_gt_int (JInt m) n = Inr (n < m)"
| "py_gt_int (JBool b) n = Inr (n < (if b then 1 else 0))"
| "py_gt_int _ n = Inl TypeError"

subsection \<open>Strings\<close>

text \<open>
  \<^verbatim>\<open>str.isdigit\<close>: the string is not empty and every character is a digit. Below code
  point 256 the digits are \<^verbatim>\<open>0\<close> to \<^verbatim>\<open>9\<close> and the superscripts U+00B2, U+00B3 and
  U+00B9, which \<^verbatim>\<open>int()\<close> rejects.
\<close>

definition is_ascii_digit :: "char \<Rightarrow> bool" where
  "is_ascii_digit c = (48 \<le> (of_char c :: nat) \<and> (of_char c :: nat) \<le> 57)"

definition is_digit_char :: "char \<Rightarrow> bool" where
  "is_digit_char c =
     (is_ascii_digit c \<or> (of_char c :: nat) = 178 \<or> (of_char c :: nat) = 179
        \<or> (of_char c :: nat) = 185)"

definition isdigit :: "string \<Rightarrow> bool" where
  "isdigit s = (s \<noteq> [] \<and> list_all is_digit_char s)"

text \<open>
  \<^verbatim>\<open>int(num)\<close> on a string that passed \<^verbatim>\<open>isdigit\<close>: the decimal value when every
  character is an ASCII digit and there are no more of them than the interpreter's limit
  on the digits of an integer string (\<^verbatim>\<open>sys.get_int_max_str_digits()\<close>, 4300 unless
  changed; leading zeros count), \<^verbatim>\<open>ValueError\<close> otherwise. (The program calls
  \<^verbatim>\<open>int\<close> on such strings only.)
\<close>

definition int_max_str_digits :: nat where
  "int_max_str_digits = 4300"

definition digit_val :: "char \<Rightarrow> int" where
  "digit_val c = int (of_char c) - 48"

definition decimal :: "string \<Rightarrow> int" where
  "decimal s = foldl (\<lambda>acc c. 10 * acc + digit_val c) 0 s"

definition py_int :: "string \<Rightarrow> py_error + int" where
  "py_int s =
     (if s \<noteq> [] \<and> list_all is_ascii_digit s \<and> length s \<le> int_max_str_digits
      then Inr (decimal s) else Inl ValueError)"

text \<open>
  \<^verbatim>\<open>max(xs, key=int)\<close>: the key is computed for every element in turn, the first
  element with the greatest key is returned, an empty list raises.
\<close>

fun max_loop :: "string \<Rightarrow> int \<Rightarrow> string list \<Rightarrow> py_error + string" where
  "max_loop maxitem maxval [] = Inr maxitem"
| "max_loop maxitem maxval (x # xs) =
     (case py_int x of
        Inl e \<Rightarrow> Inl e
      | Inr v \<Rightarrow> if maxval < v then max_loop x v xs else max_loop maxitem maxval xs)"

definition max_key_int :: "string list \<Rightarrow> py_error + string" where
  "max_key_int xs =
     (case xs of
        [] \<Rightarrow> Inl ValueError
      | x # rest \<Rightarrow> (case py_int x of Inl e \<Rightarrow> Inl e | Inr v \<Rightarrow> max_loop x v rest))"

section \<open>The fetch stage\<close>

subsection \<open>The source API\<close>

text \<open>
  The two requests the program sends. In full-fetch mode: \<^verbatim>\<open>offset\<close>, \<^verbatim>\<open>limit\<close>,
  \<^verbatim>\<open>createdFrom\<close>; in incremental mode: \<^verbatim>\<open>offset\<close>, \<^verbatim>\<open>limit\<close>,
  \<^verbatim>\<open>sortBy=orderNumber\<close>, \<^verbatim>\<open>sortOrder=asc\<close>. What comes back either makes
  \<^verbatim>\<open>requests.get\<close>, \<^verbatim>\<open>raise_for_status\<close> or \<^verbatim>\<open>response.json\<close> raise, or is a
  decoded body. The source is a function from requests to responses.
\<close>

datatype request =
    FullReq nat nat string
  | IncReq nat nat

datatype response =
    TransportFailure
  | BadStatus
  | MalformedBody
  | Body json

definition INITIAL_FETCH_DATE_STR :: string where
  "INITIAL_FETCH_DATE_STR = ''2025-03-17 00:00:00 +0000''"

definition limit :: nat where
  "limit = 100"

text \<open>
  \<^verbatim>\<open>requests.get\<close>, \<^verbatim>\<open>raise_for_status\<close>, \<^verbatim>\<open>response.json()\<close> and
  \<^verbatim>\<open>page.get("items", [])\<close>.
\<close>

definition fetch_page :: "(request \<Rightarrow> response) \<Rightarrow> request \<Rightarrow> py_error + json" where
  "fetch_page server req =
     (case server req of
        TransportFailure \<Rightarrow> Inl ConnectionError
      | BadStatus \<Rightarrow> Inl HTTPError
      | MalformedBody \<Rightarrow> Inl JSONDecodeError
      | Body page \<Rightarrow> py_get page ''items'' (JArr []))"

subsection \<open>Full fetch (lines 115 to 134)\<close>

text \<open>
  The loop state is \<^verbatim>\<open>offset\<close> and \<^verbatim>\<open>all_orders\<close>. The loop has no bound of its own:
  a source that keeps returning pages of 100 or more items keeps it running, so the
  function is partial and \<open>None\<close> stands for a loop that never ends. A normal exit
  returns the final state; an exception leaves through \<open>Inl\<close>.
\<close>

partial_function (option) full_loop ::
  "(request \<Rightarrow> response) \<Rightarrow> nat \<Rightarrow> json list \<Rightarrow> (py_error + nat \<times> json list) option" where
  "full_loop server offset all_orders =
     (case fetch_page server (FullReq offset limit INITIAL_FETCH_DATE_STR) of
        Inl e \<Rightarrow> Some (Inl e)
      | Inr orders \<Rightarrow>
          (case py_iter orders of
             Inl e \<Rightarrow> Some (Inl e)
           | Inr elems \<Rightarrow>
               (case py_len orders of
                  Inl e \<Rightarrow> Some (Inl e)
                | Inr n \<Rightarrow>
                    if n < limit then Some (Inr (offset, all_orders @ elems))
                    else full_loop server (offset + limit) (all_orders @ elems))))"

subsection \<open>Incremental fetch (lines 137 to 167)\<close>

text \<open>
  The filter of line 158:
  \<^verbatim>\<open>order.get('orderNumber') and order.get('orderNumber') > last_order_number\<close>.
\<close>

definition keep_order :: "int \<Rightarrow> json \<Rightarrow> py_error + bool" where
  "keep_order last_order_number order =
     (case py_get order ''orderNumber'' JNull of
        Inl e \<Rightarrow> Inl e
      | Inr n \<Rightarrow> if truthy n then py_gt_int n last_order_number else Inr False)"

fun newly_fetched :: "int \<Rightarrow> json list \<Rightarrow> py_error + json list" where
  "newly_fetched last_order_number [] = Inr []"
| "newly_fetched last_order_number (order # rest) =
     (case keep_order last_order_number order of
        Inl e \<Rightarrow> Inl e
      | Inr keep \<Rightarrow>
          (case newly_fetched last_order_number rest of
             Inl e \<Rightarrow> Inl e
           | Inr kept \<Rightarrow> Inr (if keep then order # kept else kept)))"

partial_function (option) inc_loop ::
  "(request \<Rightarrow> response) \<Rightarrow> int \<Rightarrow> nat \<Rightarrow> json list \<Rightarrow> (py_error + nat \<times> json list) option" where
  "inc_loop server last_order_number offset all_orders =
     (case fetch_page server (IncReq offset limit) of
        Inl e \<Rightarrow> Some (Inl e)
      | Inr orders \<Rightarrow>
          if \<not> truthy orders then Some (Inr (offset, all_orders))
          else
            (case py_iter orders of
               Inl e \<Rightarrow> Some (Inl e)
             | Inr elems \<Rightarrow>
                 (case newly_fetched last_order_number elems of
                    Inl e \<Rightarrow> Some (Inl e)
                  | Inr newly \<Rightarrow>
                      (case py_len orders of
                         Inl e \<Rightarrow> Some (Inl e)
                       | Inr n \<Rightarrow>
                           if n < limit \<or> newly = [] then Some (Inr (offset, all_orders @ newly))
                           else inc_loop server last_order_number (offset + limit)
                                  (all_orders @ newly)))))"

subsection \<open>Choice of the mode and the \<^verbatim>\<open>try\<close> block (lines 108 to 171)\<close>

datatype fetch_mode = FullFetch | Incremental

text \<open>
  Line 111:
  \<^verbatim>\<open>not existing_order_numbers or all(not num.isdigit() for num in existing_order_numbers)\<close>.
\<close>

definition select_mode :: "string list \<Rightarrow> fetch_mode" where
  "select_mode existing_order_numbers =
     (if existing_order_numbers = [] \<or> list_all (\<lambda>num. \<not> isdigit num) existing_order_numbers
      then FullFetch else Incremental)"

text \<open>Lines 137 and 138: the greatest existing number, read twice through \<^verbatim>\<open>int\<close>.\<close>

definition last_seen :: "string list \<Rightarrow> py_error + int" where
  "last_seen existing_order_numbers =
     (case max_key_int (filter isdigit existing_order_numbers) of
        Inl e \<Rightarrow> Inl e
      | Inr last_order_number_str \<Rightarrow> py_int last_order_number_str)"

text \<open>
  The body of the \<^verbatim>\<open>try\<close>. \<open>col_values\<close> is what reading the order-number column
  gives: the cells from the header down, or an exception of the sheet client.
\<close>

definition fetch_try ::
  "(py_error + string list) \<Rightarrow> (request \<Rightarrow> response) \<Rightarrow> (py_error + json list) option" where
  "fetch_try col_values server =
     (case col_values of
        Inl e \<Rightarrow> Some (Inl e)
      | Inr col \<Rightarrow>
          (let existing_order_numbers = drop 1 col in
           case select_mode existing_order_numbers of
             FullFetch \<Rightarrow> map_option (map_sum id snd) (full_loop server 0 [])
           | Incremental \<Rightarrow>
               (case last_seen existing_order_numbers of
                  Inl e \<Rightarrow> Some (Inl e)
                | Inr last_order_number \<Rightarrow>
                    map_option (map_sum id snd) (inc_loop server last_order_number 0 []))))"

text \<open>\<^verbatim>\<open>except Exception\<close>: the orders to add are those fetched, or none after an exception.\<close>

definition new_orders_to_add :: "py_error + json list \<Rightarrow> json list" where
  "new_orders_to_add r = (case r of Inl e \<Rightarrow> [] | Inr orders \<Rightarrow> orders)"

text \<open>
  The words of the specification for the choice of the mode: a cell that parses as a
  positive integer (read here on strings of digits, the only ones the test of line 111
  lets through).
\<close>

definition spec_positive_integer :: "string \<Rightarrow> bool" where
  "spec_positive_integer s = (case py_int s of Inl e \<Rightarrow> False | Inr n \<Rightarrow> 0 < n)"

subsection \<open>Observations on the incremental loop\<close>

text \<open>
  The orders of a page that the filter of line 158 keeps, and the elements of the page
  the incremental loop reads at an offset (none when the request or the iteration
  raises).
\<close>

definition retained :: "int \<Rightarrow> json list \<Rightarrow> json list" where
  "retained last_order_number orders = filter (\<lambda>order. keep_order last_order_number order = Inr True) orders"

definition inc_page_orders :: "(request \<Rightarrow> response) \<Rightarrow> nat \<Rightarrow> json list" where
  "inc_page_orders server offset =
     (case fetch_page server (IncReq offset limit) of
        Inl e \<Rightarrow> []
      | Inr orders \<Rightarrow> (case py_iter orders of Inl e \<Rightarrow> [] | Inr elems \<Rightarrow> elems))"

text \<open>
  The words of the specification for the watermark: the maximum of the numeric values
  in the order-number column.
\<close>

definition spec_watermark :: "string list \<Rightarrow> int" where
  "spec_watermark existing_order_numbers =
     Max (set (map decimal (filter isdigit existing_order_numbers)))"

section \<open>Normalising dates and option names\<close>

subsection \<open>\<^verbatim>\<open>parse_and_standardize_date\<close> (lines 39 to 51)\<close>

text \<open>
  \<^verbatim>\<open>datetime\<close> and \<^verbatim>\<open>zoneinfo\<close> are library code. The calls the program makes are the
  fields of \<open>date_lib\<close>, over any type \<open>'dt\<close> of datetime objects:
  \<^verbatim>\<open>datetime.strptime(date_str, fmt)\<close> on a string (\<open>None\<close> when it raises
  \<^verbatim>\<open>ValueError\<close>), the test \<^verbatim>\<open>dt_obj.tzinfo is None\<close>,
  \<^verbatim>\<open>dt_obj.replace(tzinfo=timezone.utc)\<close>,
  \<^verbatim>\<open>dt_obj.astimezone(ZoneInfo("Africa/Lagos"))\<close>, which can raise, and
  \<^verbatim>\<open>strftime("%d-%m-%Y %H:%M:%S")\<close>.
\<close>

record 'dt date_lib =
  strptime :: "string \<Rightarrow> string \<Rightarrow> 'dt option"
  tzinfo_is_None :: "'dt \<Rightarrow> bool"
  replace_tzinfo_utc :: "'dt \<Rightarrow> 'dt"
  astimezone_lagos :: "'dt \<Rightarrow> py_error + 'dt"
  strftime :: "'dt \<Rightarrow> string"

definition ECWID_DATE_FORMATS :: "string list" where
  "ECWID_DATE_FORMATS = [''%Y-%m-%d %H:%M:%S %z'', ''%Y-%m-%d %H:%M:%S'', ''%Y-%m-%d'']"

text \<open>
  The \<^verbatim>\<open>for\<close> loop over the formats: the \<^verbatim>\<open>try\<close> covers \<^verbatim>\<open>strptime\<close> and the
  conversion, \<^verbatim>\<open>except ValueError\<close> goes on to the next format, any other exception
  leaves the function.
\<close>

fun try_formats :: "'dt date_lib \<Rightarrow> string \<Rightarrow> string list \<Rightarrow> py_error + 'dt option" where
  "try_formats lib date_str [] = Inr None"
| "try_formats lib date_str (fmt # fmts) =
     (case strptime lib date_str fmt of
        None \<Rightarrow> try_formats lib date_str fmts
      | Some dt_obj \<Rightarrow>
          (case astimezone_lagos lib
                  (if tzinfo_is_None lib dt_obj then replace_tzinfo_utc lib dt_obj else dt_obj) of
             Inr dt \<Rightarrow> Inr (Some dt)
           | Inl e \<Rightarrow> if e = ValueError then try_formats lib date_str fmts else Inl e))"

text \<open>
  \<^verbatim>\<open>if not date_str: return None\<close>; then the loop. \<^verbatim>\<open>strptime\<close> raises
  \<^verbatim>\<open>TypeError\<close> on a truthy value that is not a string.
\<close>

definition parse_and_standardize_date :: "'dt date_lib \<Rightarrow> json \<Rightarrow> py_error + 'dt option" where
  "parse_and_standardize_date lib date_str =
     (if \<not> truthy date_str then Inr None
      else (case date_str of
              JStr s \<Rightarrow> try_formats lib s ECWID_DATE_FORMATS
            | _ \<Rightarrow> Inl TypeError))"

subsection \<open>\<^verbatim>\<open>normalize_option\<close> (lines 54 to 62)\<close>

text \<open>
  \<^verbatim>\<open>str.lower\<close> on code points below 256: the ASCII capitals and the Latin-1 capitals
  U+00C0 to U+00DE (the multiplication sign U+00D7 apart) move up by 32.
\<close>

definition lower_char :: "char \<Rightarrow> char" where
  "lower_char c =
     (let n = (of_char c :: nat) in
      if (65 \<le> n \<and> n \<le> 90) \<or> (192 \<le> n \<and> n \<le> 222 \<and> n \<noteq> 215) then char_of (n + 32) else c)"

definition lower :: "string \<Rightarrow> string" where
  "lower s = map lower_char s"

text \<open>\<^verbatim>\<open>x in name\<close> on strings: \<open>x\<close> occurs in \<open>name\<close> as a contiguous substring.\<close>

fun starts_with :: "string \<Rightarrow> string \<Rightarrow> bool" where
  "starts_with [] s = True"
| "starts_with (c # cs) [] = False"
| "starts_with (c # cs) (d # ds) = (c = d \<and> starts_with cs ds)"

fun py_in :: "string \<Rightarrow> string \<Rightarrow> bool" where
  "py_in x [] = (x = [])"
| "py_in x (c # cs) = (starts_with x (c # cs) \<or> py_in x cs)"

definition replace_spaces :: "string \<Rightarrow> string" where
  "replace_spaces s = map (\<lambda>c. if c = CHR '' '' then CHR ''_'' else c) s"

definition normalize_option :: "string \<Rightarrow> string" where
  "normalize_option name0 =
     (let name = lower name0 in
      if list_ex (\<lambda>x. py_in x name) [''color'', ''colour'', ''coloue'', ''colours'', ''cours'']
        then ''color''
      else if list_ex (\<lambda>x. py_in x name) [''size'', ''sizing'', ''sizs''] then ''size''
      else if list_ex (\<lambda>x. py_in x name) [''category'', ''caregory'', ''categories'', ''catgory'']
        then ''category''
      else if list_ex (\<lambda>x. py_in x name) [''designer''] then ''designer_category''
      else if list_ex (\<lambda>x. py_in x name) [''thickness''] then ''thickness''
      else replace_spaces name)"

section \<open>Flattening (lines 174 to 218)\<close>

text \<open>A row of the flattened sheet: the six keys of \<^verbatim>\<open>fieldnames_flattened\<close>.\<close>

record flat_row =
  create_date :: json
  order_number :: json
  product_name :: json
  category :: json
  size' :: json
  color :: json

text \<open>
  The loop over \<^verbatim>\<open>selectedOptions\<close> (lines 203 to 212): the name is normalised
  (\<^verbatim>\<open>name.lower()\<close> exists on strings only), the value is stored under the key the
  name normalises to, if that key is one of the three.
\<close>

fun apply_options :: "flat_row \<Rightarrow> json list \<Rightarrow> py_error + flat_row" where
  "apply_options row_for_flattened [] = Inr row_for_flattened"
| "apply_options row_for_flattened (opt # opts) =
     (case py_get opt ''name'' (JStr []) of
        Inl e \<Rightarrow> Inl e
      | Inr nm \<Rightarrow>
          (case nm of
             JStr s \<Rightarrow>
               (let cleaned_option_name = normalize_option s in
                case py_get opt ''value'' JNull of
                  Inl e \<Rightarrow> Inl e
                | Inr v \<Rightarrow>
                    apply_options
                      (if cleaned_option_name = ''color'' then row_for_flattened\<lparr>color := v\<rparr>
                       else if cleaned_option_name = ''size'' then row_for_flattened\<lparr>size' := v\<rparr>
                       else if cleaned_option_name = ''category''
                         then row_for_flattened\<lparr>category := v\<rparr>
                       else row_for_flattened)
                      opts)
           | _ \<Rightarrow> Inl AttributeError))"

text \<open>The body of the loop over the items (lines 195 to 218), for one item.\<close>

definition flatten_item :: "json \<Rightarrow> json \<Rightarrow> json \<Rightarrow> py_error + flat_row" where
  "flatten_item formatted_create_date number item =
     (case py_get item ''name'' JNull of
        Inl e \<Rightarrow> Inl e
      | Inr nm \<Rightarrow>
          (case py_get item ''selectedOptions'' (JArr []) of
             Inl e \<Rightarrow> Inl e
           | Inr selected \<Rightarrow>
               (case py_iter selected of
                  Inl e \<Rightarrow> Inl e
                | Inr opts \<Rightarrow>
                    apply_options
                      \<lparr>create_date = formatted_create_date, order_number = number,
                       product_name = nm, category = JNull, size' = JNull, color = JNull\<rparr>
                      opts)))"

fun flatten_items :: "json \<Rightarrow> json \<Rightarrow> json list \<Rightarrow> py_error + flat_row list" where
  "flatten_items formatted_create_date number [] = Inr []"
| "flatten_items formatted_create_date number (item # items) =
     (case flatten_item formatted_create_date number item of
        Inl e \<Rightarrow> Inl e
      | Inr r \<Rightarrow>
          (case flatten_items formatted_create_date number items of
             Inl e \<Rightarrow> Inl e
           | Inr rs \<Rightarrow> Inr (r # rs)))"

text \<open>The body of the loop over the orders (lines 177 to 218), for one order.\<close>

definition flatten_order :: "'dt date_lib \<Rightarrow> json \<Rightarrow> py_error + flat_row list" where
  "flatten_order lib order =
     (case py_get order ''createDate'' JNull of
        Inl e \<Rightarrow> Inl e
      | Inr raw_create_date \<Rightarrow>
          (case parse_and_standardize_date lib raw_create_date of
             Inl e \<Rightarrow> Inl e
           | Inr parsed_create_date \<Rightarrow>
               (let formatted_create_date =
                      (case parsed_create_date of
                         Some d \<Rightarrow> JStr (strftime lib d)
                       | None \<Rightarrow> raw_create_date)
                in case py_get order ''orderNumber'' JNull of
                     Inl e \<Rightarrow> Inl e
                   | Inr number \<Rightarrow>
                       (case py_get order ''items'' JNull of
                          Inl e \<Rightarrow> Inl e
                        | Inr its \<Rightarrow>
                            if \<not> truthy its then
                              Inr [\<lparr>create_date = formatted_create_date, order_number = number,
                                    product_name = JNull, category = JNull, size' = JNull,
                                    color = JNull\<rparr>]
                            else
                              (case py_iter its of
                                 Inl e \<Rightarrow> Inl e
                               | Inr items \<Rightarrow>
                                   flatten_items formatted_create_date number items)))))"

fun flatten_all :: "'dt date_lib \<Rightarrow> json list \<Rightarrow> py_error + flat_row list" where
  "flatten_all lib [] = Inr []"
| "flatten_all lib (order # orders) =
     (case flatten_order lib order of
        Inl e \<Rightarrow> Inl e
      | Inr rows \<Rightarrow>
          (case flatten_all lib orders of
             Inl e \<Rightarrow> Inl e
           | Inr others \<Rightarrow> Inr (rows @ others)))"

subsection \<open>Well-formed items and options\<close>

text \<open>
  The data model of the specification: an option is a dict whose \<^verbatim>\<open>name\<close>, when
  present, is a string; a line item is a dict whose \<^verbatim>\<open>selectedOptions\<close>, when present,
  is a list of options. \<open>option_name\<close> and \<open>option_value\<close> read an option as lines 204
  and 205 do; \<open>last_option_value\<close> is the value of the last option of a list whose
  normalised name is a given key, or a default when there is none.
\<close>

definition is_option :: "json \<Rightarrow> bool" where
  "is_option opt =
     (case opt of
        JObj kvs \<Rightarrow> (case map_of kvs ''name'' of None \<Rightarrow> True | Some (JStr s) \<Rightarrow> True | Some _ \<Rightarrow> False)
      | _ \<Rightarrow> False)"

definition is_line_item :: "json \<Rightarrow> bool" where
  "is_line_item item =
     (case item of
        JObj kvs \<Rightarrow>
          (case map_of kvs ''selectedOptions'' of
             None \<Rightarrow> True
           | Some (JArr opts) \<Rightarrow> list_all is_option opts
           | Some _ \<Rightarrow> False)
      | _ \<Rightarrow> False)"

definition option_name :: "json \<Rightarrow> string" where
  "option_name opt = (case py_get opt ''name'' (JStr []) of Inr (JStr s) \<Rightarrow> s | _ \<Rightarrow> [])"

definition option_value :: "json \<Rightarrow> json" where
  "option_value opt = (case py_get opt ''value'' JNull of Inr v \<Rightarrow> v | Inl e \<Rightarrow> JNull)"

definition last_option_value :: "string \<Rightarrow> json \<Rightarrow> json list \<Rightarrow> json" where
  "last_option_value key dflt opts =
     (case rev (filter (\<lambda>opt. normalize_option (option_name opt) = key) opts) of
        [] \<Rightarrow> dflt
      | opt # earlier \<Rightarrow> option_value opt)"

definition selected_options :: "json \<Rightarrow> json list" where
  "selected_options item =
     (case py_get item ''selectedOptions'' (JArr []) of Inr (JArr opts) \<Rightarrow> opts | _ \<Rightarrow> [])"

definition item_name :: "json \<Rightarrow> json" where
  "item_name item = (case py_get item ''name'' JNull of Inr nm \<Rightarrow> nm | Inl e \<Rightarrow> JNull)"

text \<open>
  A small date library for the examples: datetime objects are a text and a flag (aware
  or naive), one date parses with the date-only format, the conversion appends an hour
  to an aware datetime.
\<close>

definition example_date_lib :: "(string \<times> bool) date_lib" where
  "example_date_lib =
     \<lparr>strptime = (\<lambda>s fmt. if fmt = ''%Y-%m-%d'' \<and> s = ''2025-04-01'' then Some (s, False) else None),
      tzinfo_is_None = (\<lambda>d. \<not> snd d),
      replace_tzinfo_utc = (\<lambda>d. (fst d, True)),
      astimezone_lagos = (\<lambda>d. if snd d then Inr (fst d @ '' 01:00:00'', True) else Inl TypeError),
      strftime = (\<lambda>d. fst d)\<rparr>"

section \<open>Cleaning, sorting and writing (lines 221 to 283)\<close>

subsection \<open>\<^verbatim>\<open>clean_dataframe_for_gspread\<close>\<close>

text \<open>
  \<^verbatim>\<open>pandas\<close> and \<^verbatim>\<open>numpy\<close> are library code. The calls whose result the program's text
  does not fix are the fields of \<open>pandas_lib\<close>:
  \<^item> \<open>to_numeric_other column v\<close>: what \<^verbatim>\<open>pd.to_numeric(..., errors='coerce')\<close> and the
    masks of lines 235 and 236 make of a cell \<open>v\<close> of the order-number column \<open>column\<close>
    that is neither null nor an integer a float64 holds exactly: \<open>None\<close> when it does
    not coerce, the rounded value of a larger integer in a column that became float64,
    an exception when the library raises one. (Results that are not integers are
    floating point and outside the model.)
  \<^item> \<open>id_column column i\<close>: cell \<open>i\<close> of the \<^verbatim>\<open>product_name\<close> column after
    \<^verbatim>\<open>astype(str).replace('<NA>', None)\<close> and the \<^verbatim>\<open>apply\<close> of line 232.
  \<^item> \<open>isna_list xs\<close>: the truth value of \<^verbatim>\<open>pd.isna(x)\<close> for a cell \<open>x\<close> that is the list
    \<open>xs\<close>: \<^verbatim>\<open>pd.isna\<close> gives an array there, and numpy raises \<^verbatim>\<open>ValueError\<close> on
    the truth value of an array of more than one element.
  \<^item> \<open>argsort ks\<close>: the indices numpy's default (quicksort) \<^verbatim>\<open>argsort\<close> returns for
    the keys \<open>ks\<close>; it sorts, and promises nothing on the order of equal keys.
\<close>

record pandas_lib =
  to_numeric_other :: "json list \<Rightarrow> json \<Rightarrow> py_error + int option"
  id_column :: "json list \<Rightarrow> nat \<Rightarrow> json"
  isna_list :: "json list \<Rightarrow> py_error + bool"
  argsort :: "int list \<Rightarrow> nat list"

text \<open>A row of the cleaned frame: the numeric order number and the five cleaned cells.\<close>

record clean_row =
  clean_create_date :: json
  numeric_order_number :: "int option"
  clean_product_name :: json
  clean_category :: json
  clean_size :: json
  clean_color :: json

text \<open>A column is processed cell after cell; the first exception ends it.\<close>

fun map_err :: "('a \<Rightarrow> py_error + 'b) \<Rightarrow> 'a list \<Rightarrow> py_error + 'b list" where
  "map_err f [] = Inr []"
| "map_err f (x # xs) =
     (case f x of
        Inl e \<Rightarrow> Inl e
      | Inr y \<Rightarrow> (case map_err f xs of Inl e \<Rightarrow> Inl e | Inr ys \<Rightarrow> Inr (y # ys)))"

text \<open>
  Lines 234 to 236 on one cell of the order-number column: null stays null, an integer
  of magnitude at most \<open>2 ^ 53\<close> keeps its value whether the column is int64 or float64,
  anything else is the library's.
\<close>

definition float_exact :: "int \<Rightarrow> bool" where
  "float_exact n = (- (2 ^ 53) \<le> n \<and> n \<le> 2 ^ 53)"

definition to_numeric :: "pandas_lib \<Rightarrow> json list \<Rightarrow> json \<Rightarrow> py_error + int option" where
  "to_numeric pd column v =
     (case v of
        JNull \<Rightarrow> Inr None
      | JInt n \<Rightarrow> if float_exact n then Inr (Some n) else to_numeric_other pd column v
      | _ \<Rightarrow> to_numeric_other pd column v)"

text \<open>
  Line 238 on one cell of the other columns:
  \<^verbatim>\<open>None if pd.isna(x) or (isinstance(x, float) and np.isnan(x)) else x\<close>. \<^verbatim>\<open>pd.isna\<close> is
  true of \<^verbatim>\<open>None\<close>, false of a boolean, an integer, a string and a dict, and an array on
  a list. (An integer in a column that pandas holds as float64 reads as the float
  of that integer; the cell is written here as the integer.)
\<close>

definition clean_cell :: "pandas_lib \<Rightarrow> json \<Rightarrow> py_error + json" where
  "clean_cell pd x =
     (case x of
        JNull \<Rightarrow> Inr JNull
      | JArr xs \<Rightarrow>
          (case isna_list pd xs of
             Inl e \<Rightarrow> Inl e
           | Inr b \<Rightarrow> Inr (if b then JNull else JArr xs))
      | _ \<Rightarrow> Inr x)"

text \<open>
  The loop over the columns, in the order of \<^verbatim>\<open>fieldnames_flattened\<close>: \<^verbatim>\<open>create_date\<close>,
  \<^verbatim>\<open>order_number\<close> (numeric), \<^verbatim>\<open>product_name\<close> (identifier), \<^verbatim>\<open>category\<close>,
  \<^verbatim>\<open>size\<close>, \<^verbatim>\<open>color\<close>. The function is called outside any \<^verbatim>\<open>try\<close>.
\<close>

definition clean_dataframe_for_gspread :: "pandas_lib \<Rightarrow> flat_row list \<Rightarrow> py_error + clean_row list" where
  "clean_dataframe_for_gspread pd rows =
     (case map_err (clean_cell pd) (map create_date rows) of
        Inl e \<Rightarrow> Inl e
      | Inr dates \<Rightarrow>
     (case map_err (to_numeric pd (map order_number rows)) (map order_number rows) of
        Inl e \<Rightarrow> Inl e
      | Inr numbers \<Rightarrow>
     (case map_err (clean_cell pd) (map category rows) of
        Inl e \<Rightarrow> Inl e
      | Inr categories \<Rightarrow>
     (case map_err (clean_cell pd) (map size' rows) of
        Inl e \<Rightarrow> Inl e
      | Inr sizes \<Rightarrow>
     (case map_err (clean_cell pd) (map color rows) of
        Inl e \<Rightarrow> Inl e
      | Inr colors \<Rightarrow>
          Inr (map (\<lambda>(d, n, p, c, s, k).
                      \<lparr>clean_create_date = d, numeric_order_number = n, clean_product_name = p,
                       clean_category = c, clean_size = s, clean_color = k\<rparr>)
                 (zip dates (zip numbers
                   (zip (map (id_column pd (map product_name rows)) [0..<length rows])
                     (zip categories (zip sizes colors)))))))))))"

subsection \<open>The sort (lines 245 and 246)\<close>

text \<open>
  \<^verbatim>\<open>order_number_sortable\<close> is the numeric order number again. \<^verbatim>\<open>sort_values\<close> with
  its defaults takes the rows that have a number in the order \<^verbatim>\<open>argsort\<close> gives for
  their numbers, and puts the rows without a number after them, in the order they had.
  (\<^verbatim>\<open>argsort\<close> returns indices into the keys it was given; \<open>pick\<close> reads them, and
  skips an index outside the list, which numpy never returns.)
\<close>

definition pick :: "'a list \<Rightarrow> nat list \<Rightarrow> 'a list" where
  "pick xs idx = concat (map (\<lambda>i. if i < length xs then [xs ! i] else []) idx)"

definition sort_values :: "pandas_lib \<Rightarrow> clean_row list \<Rightarrow> clean_row list" where
  "sort_values pd df =
     pick (filter (\<lambda>r. numeric_order_number r \<noteq> None) df)
          (argsort pd (List.map_filter numeric_order_number df))
     @ filter (\<lambda>r. numeric_order_number r = None) df"

subsection \<open>The run\<close>

text \<open>
  What a run meets outside the program: the read of the order-number column, the source,
  and what \<^verbatim>\<open>append_rows\<close> on the orders sheet and the logging block (\<^verbatim>\<open>append_row\<close>
  on the log sheet) raise, if anything.
\<close>

record env =
  env_col_values :: "py_error + string list"
  env_server :: "request \<Rightarrow> response"
  env_append_rows :: "py_error option"
  env_append_row :: "py_error option"

text \<open>
  A run ends with an uncaught exception (of the flattening, of the cleaning or of
  \<^verbatim>\<open>append_rows\<close>), or completes: then it has handed the given rows, in that order, to
  \<^verbatim>\<open>append_rows\<close> (none when the frame is empty: \<^verbatim>\<open>append_rows\<close> is not called), and has
  run the logging block with the given count, whose own exception, if any, is caught and
  printed.
\<close>

datatype outcome =
    Crashed py_error
  | Completed "clean_row list" nat "py_error option"

definition run :: "'dt date_lib \<Rightarrow> pandas_lib \<Rightarrow> env \<Rightarrow> outcome option" where
  "run lib pd e =
     (case fetch_try (env_col_values e) (env_server e) of
        None \<Rightarrow> None
      | Some fetched \<Rightarrow>
          Some (case flatten_all lib (new_orders_to_add fetched) of
                  Inl err \<Rightarrow> Crashed err
                | Inr new_rows_for_flattened_sheet \<Rightarrow>
                    (case clean_dataframe_for_gspread pd new_rows_for_flattened_sheet of
                       Inl err \<Rightarrow> Crashed err
                     | Inr cleaned \<Rightarrow>
                         (let flattened_df = sort_values pd cleaned
                          in if flattened_df \<noteq> [] then
                               (case env_append_rows e of
                                  Some err \<Rightarrow> Crashed err
                                | None \<Rightarrow>
                                    Completed flattened_df (length flattened_df) (env_append_row e))
                             else Completed [] (length flattened_df) (env_append_row e)))))"

subsection \<open>The destination between two runs\<close>








subsection \<open>Examples\<close>

text \<open>
  A pandas stand-in for the examples: nothing but null and small integers coerces, a
  product name that is not a string reads \<^verbatim>\<open>None\<close>, a list of two or more elements has
  no truth value, and the sort of the indices happens to be stable.
\<close>

definition example_pandas_lib :: pandas_lib where
  "example_pandas_lib =
     \<lparr>to_numeric_other = (\<lambda>column v. Inr None),
      id_column = (\<lambda>column i. if i < length column
                                then (case column ! i of JStr s \<Rightarrow> JStr s | _ \<Rightarrow> JStr ''None'')
                                else JNull),
      isna_list = (\<lambda>xs. case xs of [] \<Rightarrow> Inr False | [x] \<Rightarrow> Inr (x = JNull) | _ \<Rightarrow> Inl ValueError),
      argsort = (\<lambda>ks. map snd (sort_key fst (zip ks [0..<length ks])))\<rparr>"

text \<open>The cleaned row of an order that holds nothing but its number.\<close>

definition example_row :: "int option \<Rightarrow> clean_row" where
  "example_row number =
     \<lparr>clean_create_date = JNull, numeric_order_number = number,
      clean_product_name = JStr ''None'', clean_category = JNull, clean_size = JNull,
      clean_color = JNull\<rparr>"



section \<open>Properties of the fetch stage\<close>

subsection \<open>Strings of digits\<close>

lemma isdigit_iff: "isdigit s \<longleftrightarrow> s \<noteq> [] \<and> (\<forall>c\<in>set s. is_digit_char c)"
  by (simp add: isdigit_def list_all_iff)

lemma select_mode_FullFetch_iff:
  "select_mode existing = FullFetch \<longleftrightarrow> (\<forall>num\<in>set existing. \<not> isdigit num)"
  by (cases existing) (auto simp: select_mode_def list_all_iff)

lemma select_mode_Incremental_iff:
  "select_mode existing = Incremental \<longleftrightarrow> (\<exists>num\<in>set existing. isdigit num)"
  by (cases existing) (auto simp: select_mode_def list_all_iff)

subsection \<open>Choice of the fetch mode\<close>

text \<open>
  C1, as stated: the run performs a full fetch if and only if the order-number column
  without its header is empty or holds no parseable positive integer. The program tests
  \<^verbatim>\<open>isdigit\<close>, which the cell \<^verbatim>\<open>0\<close> passes: a column whose only number is 0 holds no
  positive integer, and the program takes the incremental branch.
\<close>

theorem fetch_mode_zero_counterexample:
  "\<not> (select_mode (drop 1 [''ORDER NO'', ''0'']) = FullFetch \<longleftrightarrow>
        (drop 1 [''ORDER NO'', ''0''] = []
          \<or> list_all (\<lambda>num. \<not> spec_positive_integer num) (drop 1 [''ORDER NO'', ''0''])))"
  by (simp add: select_mode_def isdigit_def is_digit_char_def is_ascii_digit_def
      spec_positive_integer_def py_int_def int_max_str_digits_def decimal_def digit_val_def)

text \<open>
  C1, amended: the run takes the full-fetch branch if and only if every cell of the
  order-number column below the header is empty or holds a character that is not a digit
  (an empty column included); it takes the incremental branch if and only if some cell
  is a non-empty string of digit characters, whatever its value. In the full-fetch branch
  the \<^verbatim>\<open>try\<close> block is the full-fetch loop from offset 0; in the incremental branch it
  is the computation of the watermark followed by the incremental loop from offset 0.
\<close>

theorem fetch_mode_selection:
  "(select_mode (drop 1 col) = FullFetch \<longleftrightarrow>
      (\<forall>num\<in>set (drop 1 col). num = [] \<or> (\<exists>c\<in>set num. \<not> is_digit_char c)))
   \<and> (select_mode (drop 1 col) = Incremental \<longleftrightarrow>
      (\<exists>num\<in>set (drop 1 col). num \<noteq> [] \<and> (\<forall>c\<in>set num. is_digit_char c)))
   \<and> (select_mode (drop 1 col) = FullFetch \<longrightarrow>
        fetch_try (Inr col) server = map_option (map_sum id snd) (full_loop server 0 []))
   \<and> (select_mode (drop 1 col) = Incremental \<longrightarrow>
        fetch_try (Inr col) server =
          (case last_seen (drop 1 col) of
             Inl e \<Rightarrow> Some (Inl e)
           | Inr last_order_number \<Rightarrow>
               map_option (map_sum id snd) (inc_loop server last_order_number 0 [])))"
proof -
  have full: "select_mode (drop 1 col) = FullFetch \<longleftrightarrow>
      (\<forall>num\<in>set (drop 1 col). num = [] \<or> (\<exists>c\<in>set num. \<not> is_digit_char c))"
    unfolding select_mode_FullFetch_iff isdigit_iff by blast
  have inc: "select_mode (drop 1 col) = Incremental \<longleftrightarrow>
      (\<exists>num\<in>set (drop 1 col). num \<noteq> [] \<and> (\<forall>c\<in>set num. is_digit_char c))"
    unfolding select_mode_Incremental_iff isdigit_iff by blast
  have run_full: "select_mode (drop 1 col) = FullFetch \<longrightarrow>
        fetch_try (Inr col) server = map_option (map_sum id snd) (full_loop server 0 [])"
    by (simp add: fetch_try_def)
  have run_inc: "select_mode (drop 1 col) = Incremental \<longrightarrow>
        fetch_try (Inr col) server =
          (case last_seen (drop 1 col) of
             Inl e \<Rightarrow> Some (Inl e)
           | Inr last_order_number \<Rightarrow>
               map_option (map_sum id snd) (inc_loop server last_order_number 0 []))"
    by (simp add: fetch_try_def)
  from full inc run_full run_inc show ?thesis by blast
qed

theorem fetch_mode_selection_witness:
  "select_mode (drop 1 [''ORDER NO'', ''abc'', '''']) = FullFetch
   \<and> select_mode (drop 1 [''ORDER NO'', ''abc'', ''0'']) = Incremental
   \<and> select_mode (drop 1 [''ORDER NO'']) = FullFetch"
  using fetch_mode_selection [of "[''ORDER NO'', ''abc'', '''']"]
    fetch_mode_selection [of "[''ORDER NO'', ''abc'', ''0'']"]
    fetch_mode_selection [of "[''ORDER NO'']"]
  by (simp add: is_digit_char_def is_ascii_digit_def)

subsection \<open>The loops\<close>

lemma newly_fetched_Inr:
  "newly_fetched w xs = Inr ys \<Longrightarrow> ys = retained w xs"
  by (induction xs arbitrary: ys) (auto simp: retained_def split: sum.splits if_splits)

lemma newly_fetched_total:
  "(\<forall>order\<in>set xs. \<exists>b. keep_order w order = Inr b) \<Longrightarrow> newly_fetched w xs = Inr (retained w xs)"
  by (induction xs) (auto simp: retained_def split: sum.splits)

lemma falsy_iter: "\<not> truthy v \<Longrightarrow> py_iter v = Inr [] \<or> (\<exists>e. py_iter v = Inl e)"
  by (cases v) auto

lemma inc_page_orders_falsy:
  "fetch_page server (IncReq offset limit) = Inr orders \<Longrightarrow> \<not> truthy orders \<Longrightarrow> inc_page_orders server offset = []"
  using falsy_iter[of orders] by (auto simp: inc_page_orders_def)

lemma concat_upt_shift:
  "concat (map f [0..<Suc (Suc k)]) = f 0 @ concat (map (\<lambda>j. f (Suc j)) [0..<Suc k])"
  by (simp only: map_upt_Suc[of f "Suc k"] concat.simps)

lemma inc_loop_result:
  "inc_loop server w off acc = Some y \<Longrightarrow> y = Inr (off', res) \<Longrightarrow>
     \<exists>k. off' = off + k * limit \<and>
         res = acc @ concat (map (\<lambda>j. retained w (inc_page_orders server (off + j * limit))) [0..<Suc k])"
proof (induction arbitrary: off' res rule: inc_loop.raw_induct[rotated 1, consumes 1])
  case (1 inc_loop server w off acc y)
  show ?case
  proof (cases "fetch_page server (IncReq off limit)")
    case (Inl e)
    with "1.hyps" "1.prems" show ?thesis by simp
  next
    case (Inr orders)
    show ?thesis
    proof (cases "truthy orders")
      case False
      with Inr "1.hyps" "1.prems" have "off' = off" "res = acc" by auto
      moreover have "inc_page_orders server off = []"
        using inc_page_orders_falsy[OF Inr False] .
      ultimately show ?thesis by (intro exI[of _ 0]) (simp add: retained_def)
    next
      case True
      with Inr "1.hyps" "1.prems" obtain elems newly n where
        it: "py_iter orders = Inr elems" and nw: "newly_fetched w elems = Inr newly"
        and ln: "py_len orders = Inr n"
        by (auto split: sum.splits)
      have pg: "inc_page_orders server off = elems"
        using Inr it by (simp add: inc_page_orders_def)
      have nw': "newly = retained w elems" using newly_fetched_Inr[OF nw] .
      show ?thesis
      proof (cases "n < limit \<or> newly = []")
        case stop: True
        with Inr True it nw ln "1.hyps" "1.prems" have "off' = off" "res = acc @ newly" by auto
        then show ?thesis using pg nw' by (intro exI[of _ 0]) simp
      next
        case go: False
        with Inr True it nw ln "1.hyps" "1.prems"
        have "inc_loop server w (off + limit) (acc @ newly) = Some y" by auto
        from "1.IH"[OF this "1.prems"] obtain k where
          k: "off' = off + limit + k * limit"
          "res = (acc @ newly) @ concat (map (\<lambda>j. retained w (inc_page_orders server (off + limit + j * limit))) [0..<Suc k])"
          by blast
        have "res = acc @ concat (map (\<lambda>j. retained w (inc_page_orders server (off + j * limit))) [0..<Suc (Suc k)])"
          unfolding concat_upt_shift using k(2) pg nw' by (simp add: add.assoc)
        with k(1) show ?thesis by (intro exI[of _ "Suc k"]) simp
      qed
    qed
  qed
qed


lemma full_loop_first_short:
  "(\<forall>j. fetch_page server (FullReq (off + j * limit) limit INITIAL_FETCH_DATE_STR) = Inr (JArr (pages j)))
    \<Longrightarrow> length (pages k) < limit \<Longrightarrow> (\<forall>j<k. limit \<le> length (pages j))
    \<Longrightarrow> full_loop server off acc = Some (Inr (off + k * limit, acc @ concat (map pages [0..<Suc k])))"
proof (induction k arbitrary: off acc pages)
  case 0
  from "0.prems"(1) have "fetch_page server (FullReq off limit INITIAL_FETCH_DATE_STR) = Inr (JArr (pages 0))"
    by (metis add.right_neutral mult_zero_left)
  with "0.prems"(2) show ?case
    by (subst full_loop.simps) simp
next
  case (Suc k)
  from Suc.prems(1) have p0: "fetch_page server (FullReq off limit INITIAL_FETCH_DATE_STR) = Inr (JArr (pages 0))"
    by (metis add.right_neutral mult_zero_left)
  from Suc.prems(3) have long: "\<not> length (pages 0) < limit" by (simp add: not_less)
  have step: "full_loop server off acc = full_loop server (off + limit) (acc @ pages 0)"
    using p0 long by (subst full_loop.simps) simp
  have "\<forall>j. fetch_page server (FullReq (off + limit + j * limit) limit INITIAL_FETCH_DATE_STR)
          = Inr (JArr ((\<lambda>j. pages (Suc j)) j))"
  proof
    fix j
    from Suc.prems(1)
    have "fetch_page server (FullReq (off + Suc j * limit) limit INITIAL_FETCH_DATE_STR) = Inr (JArr (pages (Suc j)))"
      by blast
    then show "fetch_page server (FullReq (off + limit + j * limit) limit INITIAL_FETCH_DATE_STR)
          = Inr (JArr ((\<lambda>j. pages (Suc j)) j))"
      by (simp add: add.assoc)
  qed
  moreover have "length ((\<lambda>j. pages (Suc j)) k) < limit" using Suc.prems(2) by simp
  moreover have "\<forall>j<k. limit \<le> length ((\<lambda>j. pages (Suc j)) j)" using Suc.prems(3) by auto
  ultimately have "full_loop server (off + limit) (acc @ pages 0)
      = Some (Inr (off + limit + k * limit, (acc @ pages 0) @ concat (map (\<lambda>j. pages (Suc j)) [0..<Suc k])))"
    by (rule Suc.IH)
  then show ?case unfolding step concat_upt_shift by (simp add: add.assoc)
qed

lemma full_loop_Some_short:
  assumes "full_loop server off acc = Some y"
  shows "(\<forall>j. fetch_page server (FullReq (off + j * limit) limit INITIAL_FETCH_DATE_STR) = Inr (JArr (pages j)))
    \<Longrightarrow> \<exists>k. length (pages k) < limit"
  using assms
proof (induction arbitrary: pages rule: full_loop.raw_induct[rotated 1, consumes 1])
  case (1 full_loop server off acc y)
  from "1.prems" have p0: "fetch_page server (FullReq off limit INITIAL_FETCH_DATE_STR) = Inr (JArr (pages 0))"
    by (metis add.right_neutral mult_zero_left)
  show ?case
  proof (cases "length (pages 0) < limit")
    case True
    then show ?thesis by blast
  next
    case False
    with p0 "1.hyps" have rec: "full_loop server (off + limit) (acc @ pages 0) = Some y" by simp
    have "\<forall>j. fetch_page server (FullReq (off + limit + j * limit) limit INITIAL_FETCH_DATE_STR)
          = Inr (JArr ((\<lambda>j. pages (Suc j)) j))"
    proof
      fix j
      from "1.prems"
      have "fetch_page server (FullReq (off + Suc j * limit) limit INITIAL_FETCH_DATE_STR) = Inr (JArr (pages (Suc j)))"
        by blast
      then show "fetch_page server (FullReq (off + limit + j * limit) limit INITIAL_FETCH_DATE_STR)
          = Inr (JArr ((\<lambda>j. pages (Suc j)) j))"
        by (simp add: add.assoc)
    qed
    from "1.IH"[OF rec this] show ?thesis by blast
  qed
qed


lemma inc_loop_first_stop:
  "(\<forall>j. fetch_page server (IncReq (off + j * limit) limit) = Inr (JArr (pages j)))
    \<Longrightarrow> (\<forall>j. \<forall>order\<in>set (pages j). \<exists>b. keep_order w order = Inr b)
    \<Longrightarrow> pages k = [] \<or> length (pages k) < limit \<or> retained w (pages k) = []
    \<Longrightarrow> (\<forall>j<k. \<not> (pages j = [] \<or> length (pages j) < limit \<or> retained w (pages j) = []))
    \<Longrightarrow> inc_loop server w off acc =
          Some (Inr (off + k * limit, acc @ concat (map (\<lambda>j. retained w (pages j)) [0..<Suc k])))"
proof (induction k arbitrary: off acc pages)
  case 0
  from "0.prems"(1) have p0: "fetch_page server (IncReq off limit) = Inr (JArr (pages 0))"
    by (metis add.right_neutral mult_zero_left)
  from "0.prems"(2) have nf: "newly_fetched w (pages 0) = Inr (retained w (pages 0))"
    by (intro newly_fetched_total) blast
  show ?case
  proof (cases "pages 0 = []")
    case True
    with p0 show ?thesis by (subst inc_loop.simps) (simp add: retained_def)
  next
    case False
    with p0 nf "0.prems"(3) show ?thesis by (subst inc_loop.simps) auto
  qed
next
  case (Suc k)
  from Suc.prems(1) have p0: "fetch_page server (IncReq off limit) = Inr (JArr (pages 0))"
    by (metis add.right_neutral mult_zero_left)
  from Suc.prems(2) have nf: "newly_fetched w (pages 0) = Inr (retained w (pages 0))"
    by (intro newly_fetched_total) blast
  from Suc.prems(4) have go: "pages 0 \<noteq> []" "\<not> length (pages 0) < limit" "retained w (pages 0) \<noteq> []"
    by auto
  have step: "inc_loop server w off acc = inc_loop server w (off + limit) (acc @ retained w (pages 0))"
    using p0 nf go by (subst inc_loop.simps) simp
  have "\<forall>j. fetch_page server (IncReq (off + limit + j * limit) limit) = Inr (JArr ((\<lambda>j. pages (Suc j)) j))"
  proof
    fix j
    from Suc.prems(1)
    have "fetch_page server (IncReq (off + Suc j * limit) limit) = Inr (JArr (pages (Suc j)))"
      by blast
    then show "fetch_page server (IncReq (off + limit + j * limit) limit) = Inr (JArr ((\<lambda>j. pages (Suc j)) j))"
      by (simp add: add.assoc)
  qed
  moreover have "\<forall>j. \<forall>order\<in>set ((\<lambda>j. pages (Suc j)) j). \<exists>b. keep_order w order = Inr b"
    using Suc.prems(2) by blast
  moreover have "(\<lambda>j. pages (Suc j)) k = [] \<or> length ((\<lambda>j. pages (Suc j)) k) < limit
      \<or> retained w ((\<lambda>j. pages (Suc j)) k) = []"
    using Suc.prems(3) by simp
  moreover have "\<forall>j<k. \<not> ((\<lambda>j. pages (Suc j)) j = [] \<or> length ((\<lambda>j. pages (Suc j)) j) < limit
      \<or> retained w ((\<lambda>j. pages (Suc j)) j) = [])"
    using Suc.prems(4) by auto
  ultimately have "inc_loop server w (off + limit) (acc @ retained w (pages 0))
      = Some (Inr (off + limit + k * limit,
           (acc @ retained w (pages 0)) @ concat (map (\<lambda>j. retained w ((\<lambda>j. pages (Suc j)) j)) [0..<Suc k])))"
    by (rule Suc.IH)
  then show ?case unfolding step concat_upt_shift by (simp add: add.assoc)
qed

lemma inc_loop_Some_stop:
  assumes "inc_loop server w off acc = Some y"
  shows "(\<forall>j. fetch_page server (IncReq (off + j * limit) limit) = Inr (JArr (pages j)))
    \<Longrightarrow> (\<forall>j. \<forall>order\<in>set (pages j). \<exists>b. keep_order w order = Inr b)
    \<Longrightarrow> \<exists>k. pages k = [] \<or> length (pages k) < limit \<or> retained w (pages k) = []"
  using assms
proof (induction arbitrary: pages rule: inc_loop.raw_induct[rotated 1, consumes 1])
  case (1 inc_loop server w off acc y)
  from "1.prems"(1) have p0: "fetch_page server (IncReq off limit) = Inr (JArr (pages 0))"
    by (metis add.right_neutral mult_zero_left)
  from "1.prems"(2) have nf: "newly_fetched w (pages 0) = Inr (retained w (pages 0))"
    by (intro newly_fetched_total) blast
  show ?case
  proof (cases "pages 0 = [] \<or> length (pages 0) < limit \<or> retained w (pages 0) = []")
    case True
    then show ?thesis by blast
  next
    case False
    with p0 nf "1.hyps"
    have rec: "inc_loop server w (off + limit) (acc @ retained w (pages 0)) = Some y" by simp
    have "\<forall>j. fetch_page server (IncReq (off + limit + j * limit) limit) = Inr (JArr ((\<lambda>j. pages (Suc j)) j))"
    proof
      fix j
      from "1.prems"(1)
      have "fetch_page server (IncReq (off + Suc j * limit) limit) = Inr (JArr (pages (Suc j)))"
        by blast
      then show "fetch_page server (IncReq (off + limit + j * limit) limit) = Inr (JArr ((\<lambda>j. pages (Suc j)) j))"
        by (simp add: add.assoc)
    qed
    moreover have "\<forall>j. \<forall>order\<in>set ((\<lambda>j. pages (Suc j)) j). \<exists>b. keep_order w order = Inr b"
      using "1.prems"(2) by blast
    ultimately have "\<exists>k. (\<lambda>j. pages (Suc j)) k = [] \<or> length ((\<lambda>j. pages (Suc j)) k) < limit
        \<or> retained w ((\<lambda>j. pages (Suc j)) k) = []"
      by (rule "1.IH"[OF rec])
    then show ?thesis by blast
  qed
qed


lemma py_int_decimal: "py_int s = Inr v \<Longrightarrow> v = decimal s"
  by (simp add: py_int_def split: if_splits)

lemma decimal_foldl_nonneg:
  "0 \<le> a \<Longrightarrow> list_all is_ascii_digit s \<Longrightarrow> 0 \<le> foldl (\<lambda>acc c. 10 * acc + digit_val c) a s"
  by (induction s arbitrary: a) (auto simp: is_ascii_digit_def digit_val_def)

lemma py_int_nonneg: "py_int s = Inr v \<Longrightarrow> 0 \<le> v"
  using decimal_foldl_nonneg[of 0 s] by (auto simp: py_int_def decimal_def split: if_splits)

lemma max_loop_Inr:
  "max_loop m mv xs = Inr s \<Longrightarrow> py_int m = Inr mv \<Longrightarrow>
     py_int s = Inr (Max (insert mv (decimal ` set xs)))"
proof (induction xs arbitrary: m mv)
  case Nil
  then show ?case by simp
next
  case (Cons x xs)
  from Cons.prems(1) obtain v where v: "py_int x = Inr v" by (auto split: sum.splits)
  then have vd: "v = decimal x" by (rule py_int_decimal)
  show ?case
  proof (cases "mv < v")
    case True
    with Cons.prems(1) v have "max_loop x v xs = Inr s" by simp
    from Cons.IH[OF this v] have "py_int s = Inr (Max (insert v (decimal ` set xs)))" .
    moreover have "Max (insert mv (decimal ` set (x # xs))) = Max (insert v (decimal ` set xs))"
    proof -
      have "Max (insert mv (insert v (decimal ` set xs))) = max mv (Max (insert v (decimal ` set xs)))"
        by (rule Max_insert) auto
      moreover have "v \<le> Max (insert v (decimal ` set xs))" by (rule Max_ge) auto
      with True have "mv \<le> Max (insert v (decimal ` set xs))" by linarith
      ultimately show ?thesis using vd by (simp add: max_def)
    qed
    ultimately show ?thesis by simp
  next
    case False
    with Cons.prems(1) v have "max_loop m mv xs = Inr s" by simp
    from Cons.IH[OF this Cons.prems(2)] have "py_int s = Inr (Max (insert mv (decimal ` set xs)))" .
    moreover have "Max (insert mv (decimal ` set (x # xs))) = Max (insert mv (decimal ` set xs))"
    proof -
      have "insert mv (decimal ` set (x # xs)) = insert v (insert mv (decimal ` set xs))"
        using vd by auto
      moreover have "Max (insert v (insert mv (decimal ` set xs))) = max v (Max (insert mv (decimal ` set xs)))"
        by (rule Max_insert) auto
      moreover have "mv \<le> Max (insert mv (decimal ` set xs))" by (rule Max_ge) auto
      with False have "v \<le> Max (insert mv (decimal ` set xs))" by linarith
      ultimately show ?thesis by (simp add: max_def)
    qed
    ultimately show ?thesis by simp
  qed
qed

lemma max_key_int_Inr:
  "max_key_int xs = Inr s \<Longrightarrow> xs \<noteq> [] \<and> py_int s = Inr (Max (decimal ` set xs))"
proof -
  assume a: "max_key_int xs = Inr s"
  then obtain x rest v where xs: "xs = x # rest" and v: "py_int x = Inr v"
    and ml: "max_loop x v rest = Inr s"
    by (auto simp: max_key_int_def split: list.splits sum.splits)
  from max_loop_Inr[OF ml v] py_int_decimal[OF v] xs show ?thesis by simp
qed

lemma last_seen_Inr:
  "last_seen existing = Inr w \<Longrightarrow>
     w = Max (decimal ` {num \<in> set existing. isdigit num}) \<and> 0 \<le> w
     \<and> (\<exists>num\<in>set existing. isdigit num)"
proof -
  assume a: "last_seen existing = Inr w"
  then obtain s where s: "max_key_int (filter isdigit existing) = Inr s" and w: "py_int s = Inr w"
    by (auto simp: last_seen_def split: sum.splits)
  from max_key_int_Inr[OF s] w have "w = Max (decimal ` set (filter isdigit existing))"
    and ne: "filter isdigit existing \<noteq> []" by auto
  moreover have "set (filter isdigit existing) = {num \<in> set existing. isdigit num}" by auto
  moreover from ne have "\<exists>num\<in>set existing. isdigit num" by (auto simp: filter_empty_conv)
  ultimately show ?thesis using py_int_nonneg[OF w] by simp
qed

lemma max_loop_total:
  "list_all (\<lambda>x. x \<noteq> [] \<and> list_all is_ascii_digit x \<and> length x \<le> int_max_str_digits) xs
     \<Longrightarrow> \<exists>s. max_loop m mv xs = Inr s"
  by (induction xs arbitrary: m mv) (auto simp: py_int_def)

lemma last_seen_total:
  assumes "\<exists>num\<in>set existing. isdigit num"
    and "\<forall>num\<in>set existing. isdigit num \<longrightarrow>
            list_all is_ascii_digit num \<and> length num \<le> int_max_str_digits"
  shows "last_seen existing = Inr (Max (decimal ` {num \<in> set existing. isdigit num}))"
proof -
  from assms(1) obtain x rest where f: "filter isdigit existing = x # rest"
    by (cases "filter isdigit existing") (auto simp: filter_empty_conv)
  have all: "list_all (\<lambda>x. x \<noteq> [] \<and> list_all is_ascii_digit x \<and> length x \<le> int_max_str_digits)
               (filter isdigit existing)"
    using assms(2) by (auto simp: list_all_iff isdigit_def)
  with f have x: "py_int x = Inr (decimal x)"
    and rest: "list_all (\<lambda>x. x \<noteq> [] \<and> list_all is_ascii_digit x \<and> length x \<le> int_max_str_digits) rest"
    by (auto simp: py_int_def)
  from max_loop_total[OF rest] obtain s where s: "max_loop x (decimal x) rest = Inr s" by blast
  with f x have mk: "max_key_int (filter isdigit existing) = Inr s" by (simp add: max_key_int_def)
  from max_loop_Inr[OF s x] obtain v where v: "py_int s = Inr v" by blast
  with mk have "last_seen existing = Inr v" by (simp add: last_seen_def)
  with last_seen_Inr[OF this] show ?thesis by simp
qed

text \<open>
  A digit that \<^verbatim>\<open>int\<close> rejects: \<^verbatim>\<open>isdigit\<close> accepts the superscript two (U+00B2),
  \<^verbatim>\<open>int\<close> raises \<^verbatim>\<open>ValueError\<close> on it, and the \<^verbatim>\<open>try\<close> block ends there.
\<close>

lemma last_seen_superscript_digit:
  "isdigit [CHR 0xB2] \<and> last_seen [''5'', [CHR 0xB2]] = Inl ValueError
   \<and> fetch_try (Inr [''ORDER NO'', ''5'', [CHR 0xB2]]) server = Some (Inl ValueError)"
proof -
  have d: "isdigit [CHR 0xB2]" "isdigit ''5''"
    by (simp_all add: isdigit_def is_digit_char_def is_ascii_digit_def)
  have l: "last_seen [''5'', [CHR 0xB2]] = Inl ValueError"
    by (simp add: last_seen_def max_key_int_def d py_int_def int_max_str_digits_def is_ascii_digit_def)
  have "select_mode (drop 1 [''ORDER NO'', ''5'', [CHR 0xB2]]) = Incremental"
    by (simp add: select_mode_def d)
  with d l show ?thesis by (simp add: fetch_try_def)
qed

lemma keep_order_int:
  "py_get order ''orderNumber'' JNull = Inr (JInt n) \<Longrightarrow> 0 \<le> w \<Longrightarrow> keep_order w order = Inr (w < n)"
  by (auto simp: keep_order_def)

lemma keep_order_True_int:
  "keep_order w order = Inr True \<Longrightarrow> py_get order ''orderNumber'' JNull = Inr (JInt n) \<Longrightarrow> w < n"
  by (auto simp: keep_order_def split: if_splits)

lemma keep_order_falsy:
  "py_get order ''orderNumber'' JNull = Inr n \<Longrightarrow> \<not> truthy n \<Longrightarrow> keep_order w order = Inr False"
  by (simp add: keep_order_def)

lemma newly_fetched_drop:
  "keep_order w order = Inr False \<Longrightarrow>
     newly_fetched w (before @ order # after) = newly_fetched w (before @ after)"
  by (induction before) (auto split: sum.splits)

lemma retained_keep: "order \<in> set (retained w orders) \<Longrightarrow> keep_order w order = Inr True"
  by (simp add: retained_def)

lemma inc_loop_kept:
  assumes "inc_loop server w off acc = Some (Inr (off', res))"
    and "order \<in> set res" and "order \<notin> set acc"
  shows "keep_order w order = Inr True"
proof -
  from inc_loop_result[OF assms(1) refl] obtain k where
    "res = acc @ concat (map (\<lambda>j. retained w (inc_page_orders server (off + j * limit))) [0..<Suc k])"
    by blast
  with assms(2,3) obtain j where "order \<in> set (retained w (inc_page_orders server (off + j * limit)))"
    by auto
  then show ?thesis by (rule retained_keep)
qed

lemma full_loop_from_zero:
  assumes fp: "\<forall>j. fetch_page server (FullReq (j * 100) 100 INITIAL_FETCH_DATE_STR) = Inr (JArr (fpages j))"
  shows "((\<exists>r. full_loop server 0 [] = Some r) \<longleftrightarrow> (\<exists>k. length (fpages k) < 100))
    \<and> (\<forall>k. length (fpages k) < 100 \<and> (\<forall>j<k. 100 \<le> length (fpages j)) \<longrightarrow>
          full_loop server 0 [] = Some (Inr (k * 100, concat (map fpages [0..<Suc k]))))"
proof -
  from fp have fp': "\<forall>j. fetch_page server (FullReq (0 + j * limit) limit INITIAL_FETCH_DATE_STR) = Inr (JArr (fpages j))"
    by (simp add: limit_def)
  have first: "full_loop server 0 [] = Some (Inr (k * 100, concat (map fpages [0..<Suc k])))"
    if "length (fpages k) < 100" "\<forall>j<k. 100 \<le> length (fpages j)" for k
    using full_loop_first_short[OF fp', of k "[]"] that by (simp add: limit_def)
  have "\<exists>k. length (fpages k) < 100" if "full_loop server 0 [] = Some r" for r
    using full_loop_Some_short[OF that fp'] by (simp add: limit_def)
  moreover have "\<exists>r. full_loop server 0 [] = Some r" if "\<exists>k. length (fpages k) < 100"
  proof -
    from that obtain k where "length (fpages k) < 100" "\<forall>j<k. \<not> length (fpages j) < 100"
      using exists_least_iff[of "\<lambda>k. length (fpages k) < 100"] by blast
    then have "length (fpages k) < 100" "\<forall>j<k. 100 \<le> length (fpages j)" by (auto simp: not_less)
    from first[OF this] show ?thesis by blast
  qed
  ultimately show ?thesis using first by blast
qed

lemma inc_loop_from_zero:
  assumes ip: "\<forall>j. fetch_page server (IncReq (j * 100) 100) = Inr (JArr (ipages j))"
    and ty: "\<forall>j. \<forall>order\<in>set (ipages j). \<exists>b. keep_order w order = Inr b"
  shows "((\<exists>r. inc_loop server w 0 [] = Some r) \<longleftrightarrow>
          (\<exists>k. ipages k = [] \<or> length (ipages k) < 100 \<or> retained w (ipages k) = []))
    \<and> (\<forall>k. (ipages k = [] \<or> length (ipages k) < 100 \<or> retained w (ipages k) = [])
            \<and> (\<forall>j<k. \<not> (ipages j = [] \<or> length (ipages j) < 100 \<or> retained w (ipages j) = [])) \<longrightarrow>
          inc_loop server w 0 [] =
            Some (Inr (k * 100, concat (map (\<lambda>j. retained w (ipages j)) [0..<Suc k]))))"
proof -
  let ?stop = "\<lambda>k. ipages k = [] \<or> length (ipages k) < 100 \<or> retained w (ipages k) = []"
  from ip have ip': "\<forall>j. fetch_page server (IncReq (0 + j * limit) limit) = Inr (JArr (ipages j))"
    by (simp add: limit_def)
  have first: "inc_loop server w 0 [] = Some (Inr (k * 100, concat (map (\<lambda>j. retained w (ipages j)) [0..<Suc k])))"
    if "?stop k" "\<forall>j<k. \<not> ?stop j" for k
    using inc_loop_first_stop[OF ip' ty, of k "[]"] that by (simp add: limit_def)
  have "\<exists>k. ?stop k" if "inc_loop server w 0 [] = Some r" for r
    using inc_loop_Some_stop[OF that ip' ty] by (simp add: limit_def)
  moreover have "\<exists>r. inc_loop server w 0 [] = Some r" if "\<exists>k. ?stop k"
  proof -
    from that obtain k where "?stop k" "\<forall>j<k. \<not> ?stop j"
      using exists_least_iff[of ?stop] by blast
    from first[OF this] show ?thesis by blast
  qed
  ultimately show ?thesis using first by blast
qed

subsection \<open>Termination of the pagination\<close>

text \<open>
  C3: for a source that answers every request with a page (a list of orders the filter
  can read), the full-fetch loop returns if and only if some page has fewer than 100
  items, and it stops at the first such page, having collected every page up to it; the
  incremental loop returns if and only if some page is empty, has fewer than 100 items
  or has no order above the watermark, and it stops at the first such page, having
  collected the orders above the watermark of every page up to it. A source that never
  sends such a page keeps the loop running.
\<close>

theorem pagination_termination:
  assumes fp: "\<forall>j. fetch_page server (FullReq (j * 100) 100 INITIAL_FETCH_DATE_STR) = Inr (JArr (fpages j))"
    and ip: "\<forall>j. fetch_page server (IncReq (j * 100) 100) = Inr (JArr (ipages j))"
    and ty: "\<forall>j. \<forall>order\<in>set (ipages j). \<exists>b. keep_order w order = Inr b"
  shows "((\<exists>r. full_loop server 0 [] = Some r) \<longleftrightarrow> (\<exists>k. length (fpages k) < 100))
    \<and> (\<forall>k. length (fpages k) < 100 \<and> (\<forall>j<k. 100 \<le> length (fpages j)) \<longrightarrow>
          full_loop server 0 [] = Some (Inr (k * 100, concat (map fpages [0..<Suc k]))))
    \<and> ((\<exists>r. inc_loop server w 0 [] = Some r) \<longleftrightarrow>
          (\<exists>k. ipages k = [] \<or> length (ipages k) < 100 \<or> retained w (ipages k) = []))
    \<and> (\<forall>k. (ipages k = [] \<or> length (ipages k) < 100 \<or> retained w (ipages k) = [])
            \<and> (\<forall>j<k. \<not> (ipages j = [] \<or> length (ipages j) < 100 \<or> retained w (ipages j) = [])) \<longrightarrow>
          inc_loop server w 0 [] =
            Some (Inr (k * 100, concat (map (\<lambda>j. retained w (ipages j)) [0..<Suc k]))))"
  using full_loop_from_zero[OF fp] inc_loop_from_zero[OF ip ty] by blast


theorem pagination_termination_witness:
  "full_loop (\<lambda>req. Body (JObj [(''items'', JArr (case req of
        FullReq off n d \<Rightarrow> if off = 0 then replicate 100 (JObj [(''orderNumber'', JInt 7)])
                            else [JObj [(''orderNumber'', JInt 8)]]
      | IncReq off n \<Rightarrow> if off = 0 then replicate 100 (JObj [(''orderNumber'', JInt 7)])
                            else [JObj [(''orderNumber'', JInt 8)]]))])) 0 []
     = Some (Inr (100, replicate 100 (JObj [(''orderNumber'', JInt 7)]) @ [JObj [(''orderNumber'', JInt 8)]]))
   \<and> inc_loop (\<lambda>req. Body (JObj [(''items'', JArr (case req of
        FullReq off n d \<Rightarrow> if off = 0 then replicate 100 (JObj [(''orderNumber'', JInt 7)])
                            else [JObj [(''orderNumber'', JInt 8)]]
      | IncReq off n \<Rightarrow> if off = 0 then replicate 100 (JObj [(''orderNumber'', JInt 7)])
                            else [JObj [(''orderNumber'', JInt 8)]]))])) 7 0 []
     = Some (Inr (0, []))
   \<and> inc_loop (\<lambda>req. Body (JObj [(''items'', JArr (case req of
        FullReq off n d \<Rightarrow> if off = 0 then replicate 100 (JObj [(''orderNumber'', JInt 7)])
                            else [JObj [(''orderNumber'', JInt 8)]]
      | IncReq off n \<Rightarrow> if off = 0 then replicate 100 (JObj [(''orderNumber'', JInt 7)])
                            else [JObj [(''orderNumber'', JInt 8)]]))])) 5 0 []
     = Some (Inr (100, replicate 100 (JObj [(''orderNumber'', JInt 7)]) @ [JObj [(''orderNumber'', JInt 8)]]))
   \<and> full_loop (\<lambda>req. Body (JObj [(''items'', JArr (replicate 100 (JObj [(''orderNumber'', JInt 7)])))])) 0 []
     = None
   \<and> inc_loop (\<lambda>req. Body (JObj [(''items'', JArr (replicate 100 (JObj [(''orderNumber'', JInt 7)])))])) 5 0 []
     = None"
proof -
  let ?o7 = "JObj [(''orderNumber'', JInt 7)]" and ?o8 = "JObj [(''orderNumber'', JInt 8)]"
  let ?E = "\<lambda>req. Body (JObj [(''items'', JArr (replicate 100 ?o7))])"
  let ?epages = "\<lambda>j::nat. replicate 100 ?o7"
  have efp: "\<forall>j. fetch_page ?E (FullReq (j * 100) 100 INITIAL_FETCH_DATE_STR) = Inr (JArr (?epages j))"
    by (simp add: fetch_page_def)
  have eip: "\<forall>j. fetch_page ?E (IncReq (j * 100) 100) = Inr (JArr (?epages j))"
    by (simp add: fetch_page_def)
  have ety: "\<forall>j. \<forall>order\<in>set (?epages j). \<exists>b. keep_order 5 order = Inr b"
    by (auto simp: keep_order_def)
  have er5: "retained 5 (replicate 100 ?o7) = replicate 100 ?o7"
    by (simp add: retained_def keep_order_def)
  note E = pagination_termination[OF efp eip ety]
  have "\<not> (\<exists>r. full_loop ?E 0 [] = Some r)"
    unfolding E[THEN conjunct1] by simp
  then have e1: "full_loop ?E 0 [] = None" by simp
  have "\<not> (\<exists>r. inc_loop ?E 5 0 [] = Some r)"
    unfolding E[THEN conjunct2, THEN conjunct2, THEN conjunct1] by (simp add: er5)
  then have e2: "inc_loop ?E 5 0 [] = None" by simp
  let ?S = "\<lambda>req. Body (JObj [(''items'', JArr (case req of
        FullReq off n d \<Rightarrow> if off = 0 then replicate 100 ?o7 else [?o8]
      | IncReq off n \<Rightarrow> if off = 0 then replicate 100 ?o7 else [?o8]))])"
  let ?pages = "\<lambda>j::nat. if j = 0 then replicate 100 ?o7 else [?o8]"
  have fp: "\<forall>j. fetch_page ?S (FullReq (j * 100) 100 INITIAL_FETCH_DATE_STR) = Inr (JArr (?pages j))"
    by (simp add: fetch_page_def)
  have ip: "\<forall>j. fetch_page ?S (IncReq (j * 100) 100) = Inr (JArr (?pages j))"
    by (simp add: fetch_page_def)
  have ty: "\<forall>j. \<forall>order\<in>set (?pages j). \<exists>b. keep_order w order = Inr b" for w
    by (simp add: keep_order_def)
  have r7: "retained 7 (replicate 100 ?o7) = []" by (simp add: retained_def keep_order_def)
  have r5: "retained 5 (replicate 100 ?o7) = replicate 100 ?o7" "retained 5 [?o8] = [?o8]"
    by (simp_all add: retained_def keep_order_def)
  note T5 = pagination_termination[OF fp ip ty[of 5]]
  note T7 = pagination_termination[OF fp ip ty[of 7]]
  have "full_loop ?S 0 [] = Some (Inr (1 * 100, concat (map ?pages [0..<Suc 1])))"
    by (rule T5[THEN conjunct2, THEN conjunct1, rule_format, of 1]) simp
  moreover have "inc_loop ?S 7 0 [] = Some (Inr (0 * 100, concat (map (\<lambda>j. retained 7 (?pages j)) [0..<Suc 0])))"
    by (rule T7[THEN conjunct2, THEN conjunct2, THEN conjunct2, rule_format, of 0]) (simp add: r7)
  moreover have "inc_loop ?S 5 0 [] = Some (Inr (1 * 100, concat (map (\<lambda>j. retained 5 (?pages j)) [0..<Suc 1])))"
    by (rule T5[THEN conjunct2, THEN conjunct2, THEN conjunct2, rule_format, of 1]) (use r5 in simp)
  ultimately show ?thesis using e1 e2 by (simp add: r5 r7)
qed


lemma spec_watermark_eq:
  "spec_watermark existing = Max (decimal ` {num \<in> set existing. isdigit num})"
  by (simp add: spec_watermark_def)

lemma fetch_try_incremental:
  assumes mode: "select_mode (drop 1 col) = Incremental"
    and run: "fetch_try (Inr col) server = Some (Inr result)"
  shows "last_seen (drop 1 col) = Inr (spec_watermark (drop 1 col)) \<and> 0 \<le> spec_watermark (drop 1 col)
    \<and> (\<exists>k. inc_loop server (spec_watermark (drop 1 col)) 0 [] = Some (Inr (k * 100, result))
          \<and> result = concat (map (\<lambda>j. retained (spec_watermark (drop 1 col))
                                       (inc_page_orders server (j * 100))) [0..<Suc k]))"
proof -
  from mode run obtain w y where w: "last_seen (drop 1 col) = Inr w"
    and y: "inc_loop server w 0 [] = Some y" and r: "map_sum id snd y = Inr result"
    by (auto simp: fetch_try_def split: sum.splits)
  from r obtain off where y': "y = Inr (off, result)" by (cases y) auto
  from last_seen_Inr[OF w] have ww: "w = spec_watermark (drop 1 col)" "0 \<le> w"
    by (simp_all add: spec_watermark_eq)
  from inc_loop_result[OF y y'] obtain k where
    "off = k * limit" "result = concat (map (\<lambda>j. retained w (inc_page_orders server (j * limit))) [0..<Suc k])"
    by auto
  with w y y' ww show ?thesis by (auto simp: limit_def)
qed

subsection \<open>The incremental filter\<close>

text \<open>
  C2: when the column holds a digit string and the \<^verbatim>\<open>try\<close> block ends, no order
  with an integer number less than or equal to the watermark is among the orders to add;
  when it ends without an exception, the watermark \<^verbatim>\<open>last_order_number\<close> is the
  maximum of the numeric values of the column, and the result is, page after page in the
  order fetched, exactly the orders the filter keeps: an order of a fetched page with an
  integer number is in the result if and only if the number is strictly greater than
  the watermark. The watermark is computed, and is that maximum, whenever the digit
  strings of the column are made of the digits 0 to 9 and none is longer than the
  interpreter's limit of 4300 digits; a digit string that \<^verbatim>\<open>int\<close> rejects makes the
  computation raise \<^verbatim>\<open>ValueError\<close>, and the \<^verbatim>\<open>try\<close> block ends with it.
\<close>

theorem incremental_filter:
  assumes mode: "select_mode (drop 1 col) = Incremental"
    and run: "fetch_try (Inr col) server = Some r"
  shows "(\<forall>order\<in>set (new_orders_to_add r). \<forall>n.
            py_get order ''orderNumber'' JNull = Inr (JInt n) \<longrightarrow> spec_watermark (drop 1 col) < n)
    \<and> (\<forall>result. r = Inr result \<longrightarrow>
          last_seen (drop 1 col) = Inr (spec_watermark (drop 1 col))
          \<and> (\<exists>k. inc_loop server (spec_watermark (drop 1 col)) 0 [] = Some (Inr (k * 100, result))
                \<and> result = concat (map (\<lambda>j. retained (spec_watermark (drop 1 col))
                                             (inc_page_orders server (j * 100))) [0..<Suc k])
                \<and> (\<forall>j\<le>k. \<forall>order\<in>set (inc_page_orders server (j * 100)). \<forall>n.
                      py_get order ''orderNumber'' JNull = Inr (JInt n) \<longrightarrow>
                      (order \<in> set result \<longleftrightarrow> spec_watermark (drop 1 col) < n))))
    \<and> ((\<forall>num\<in>set (drop 1 col). isdigit num \<longrightarrow>
            list_all is_ascii_digit num \<and> length num \<le> int_max_str_digits) \<longrightarrow>
          last_seen (drop 1 col) = Inr (spec_watermark (drop 1 col)))"
proof -
  let ?w = "spec_watermark (drop 1 col)"
  have total: "(\<forall>num\<in>set (drop 1 col). isdigit num \<longrightarrow>
            list_all is_ascii_digit num \<and> length num \<le> int_max_str_digits) \<longrightarrow>
          last_seen (drop 1 col) = Inr ?w"
    using last_seen_total[of "drop 1 col"] mode
    by (simp add: select_mode_Incremental_iff spec_watermark_eq)
  have success: "last_seen (drop 1 col) = Inr ?w
          \<and> (\<exists>k. inc_loop server ?w 0 [] = Some (Inr (k * 100, result))
                \<and> result = concat (map (\<lambda>j. retained ?w (inc_page_orders server (j * 100))) [0..<Suc k])
                \<and> (\<forall>j\<le>k. \<forall>order\<in>set (inc_page_orders server (j * 100)). \<forall>n.
                      py_get order ''orderNumber'' JNull = Inr (JInt n) \<longrightarrow>
                      (order \<in> set result \<longleftrightarrow> ?w < n)))"
    and kept: "\<forall>order\<in>set result. keep_order ?w order = Inr True"
    if r: "r = Inr result" for result
  proof -
    from fetch_try_incremental[OF mode run[unfolded r]] obtain k where
      ls: "last_seen (drop 1 col) = Inr ?w" and nn: "0 \<le> ?w"
      and lp: "inc_loop server ?w 0 [] = Some (Inr (k * 100, result))"
      and res: "result = concat (map (\<lambda>j. retained ?w (inc_page_orders server (j * 100))) [0..<Suc k])"
      by blast
    from res show kp: "\<forall>order\<in>set result. keep_order ?w order = Inr True"
      by (auto simp: retained_def)
    have "order \<in> set result \<longleftrightarrow> ?w < n"
      if j: "j \<le> k" and o: "order \<in> set (inc_page_orders server (j * 100))"
        and n: "py_get order ''orderNumber'' JNull = Inr (JInt n)" for j order n
    proof
      assume "order \<in> set result"
      with kp have "keep_order ?w order = Inr True" by blast
      from keep_order_True_int[OF this n] show "?w < n" .
    next
      assume "?w < n"
      with keep_order_int[OF n nn] have "keep_order ?w order = Inr True" by simp
      with o have "order \<in> set (retained ?w (inc_page_orders server (j * 100)))"
        by (simp add: retained_def)
      moreover from j have "j \<in> set [0..<Suc k]" by auto
      ultimately show "order \<in> set result" unfolding res by auto
    qed
    with ls lp res show "last_seen (drop 1 col) = Inr ?w
          \<and> (\<exists>k. inc_loop server ?w 0 [] = Some (Inr (k * 100, result))
                \<and> result = concat (map (\<lambda>j. retained ?w (inc_page_orders server (j * 100))) [0..<Suc k])
                \<and> (\<forall>j\<le>k. \<forall>order\<in>set (inc_page_orders server (j * 100)). \<forall>n.
                      py_get order ''orderNumber'' JNull = Inr (JInt n) \<longrightarrow>
                      (order \<in> set result \<longleftrightarrow> ?w < n)))"
      by blast
  qed
  have "\<forall>order\<in>set (new_orders_to_add r). \<forall>n.
            py_get order ''orderNumber'' JNull = Inr (JInt n) \<longrightarrow> ?w < n"
  proof (cases r)
    case (Inl e)
    then show ?thesis by (simp add: new_orders_to_add_def)
  next
    case (Inr result)
    from kept[OF Inr] Inr show ?thesis
      by (auto simp: new_orders_to_add_def dest: keep_order_True_int)
  qed
  with success total show ?thesis by blast
qed


theorem incremental_filter_witness:
  "fetch_try (Inr [''ORDER NO'', ''5'', ''abc'', ''12'', ''7''])
      (\<lambda>req. Body (JObj [(''items'', JArr [JObj [(''orderNumber'', JInt 11)],
          JObj [(''orderNumber'', JInt 12)], JObj [(''orderNumber'', JInt 13)],
          JObj [(''orderNumber'', JInt 20)]])]))
     = Some (Inr [JObj [(''orderNumber'', JInt 13)], JObj [(''orderNumber'', JInt 20)]])
   \<and> last_seen (drop 1 [''ORDER NO'', ''5'', ''abc'', ''12'', ''7''])
       = Inr (spec_watermark (drop 1 [''ORDER NO'', ''5'', ''abc'', ''12'', ''7'']))
   \<and> spec_watermark (drop 1 [''ORDER NO'', ''5'', ''abc'', ''12'', ''7'']) = 12"
proof -
  let ?col = "[''ORDER NO'', ''5'', ''abc'', ''12'', ''7'']"
  let ?S = "\<lambda>req. Body (JObj [(''items'', JArr [JObj [(''orderNumber'', JInt 11)],
          JObj [(''orderNumber'', JInt 12)], JObj [(''orderNumber'', JInt 13)],
          JObj [(''orderNumber'', JInt 20)]])])"
  have mode: "select_mode (drop 1 ?col) = Incremental"
    by (simp add: select_mode_def isdigit_def is_digit_char_def is_ascii_digit_def)
  have ls: "last_seen (drop 1 ?col) = Inr 12"
    by (simp add: last_seen_def max_key_int_def isdigit_def is_digit_char_def is_ascii_digit_def
        py_int_def int_max_str_digits_def decimal_def digit_val_def)
  have lp: "inc_loop ?S 12 0 [] = Some (Inr (0, [JObj [(''orderNumber'', JInt 13)], JObj [(''orderNumber'', JInt 20)]]))"
    by (subst inc_loop.simps) (simp add: fetch_page_def keep_order_def limit_def)
  have run: "fetch_try (Inr ?col) ?S
     = Some (Inr [JObj [(''orderNumber'', JInt 13)], JObj [(''orderNumber'', JInt 20)]])"
    using mode ls lp by (simp add: fetch_try_def)
  from incremental_filter[OF mode run]
  have "last_seen (drop 1 ?col) = Inr (spec_watermark (drop 1 ?col))" by blast
  with ls run show ?thesis by simp
qed

text \<open>
  C10: an order whose \<^verbatim>\<open>orderNumber\<close> is absent, null or 0 makes the filter of line
  158 answer False without an exception, a page gives the same result with the order as
  without it, and the order is never in the result of the incremental loop, nor among
  the orders to add of a run in incremental mode.
\<close>

theorem falsy_order_number_excluded:
  assumes "map_of kvs ''orderNumber'' = None \<or> map_of kvs ''orderNumber'' = Some JNull
      \<or> map_of kvs ''orderNumber'' = Some (JInt 0)"
  shows "keep_order w (JObj kvs) = Inr False
    \<and> newly_fetched w (before @ JObj kvs # after) = newly_fetched w (before @ after)
    \<and> (\<forall>server off res. inc_loop server w 0 [] = Some (Inr (off, res)) \<longrightarrow> JObj kvs \<notin> set res)
    \<and> (\<forall>col server r. select_mode (drop 1 col) = Incremental \<longrightarrow>
          fetch_try (Inr col) server = Some r \<longrightarrow> JObj kvs \<notin> set (new_orders_to_add r))"
proof -
  have no: "keep_order w (JObj kvs) = Inr False" for w
    using assms by (auto simp: keep_order_def)
  have loop: "JObj kvs \<notin> set res" if "inc_loop server w 0 [] = Some (Inr (off, res))" for server w off res
  proof
    assume "JObj kvs \<in> set res"
    from inc_loop_kept[OF that this] have "keep_order w (JObj kvs) = Inr True" by simp
    with no show False by simp
  qed
  have "JObj kvs \<notin> set (new_orders_to_add r)"
    if mode: "select_mode (drop 1 col) = Incremental" and run: "fetch_try (Inr col) server = Some r"
    for col server r
  proof (cases r)
    case (Inl e)
    then show ?thesis by (simp add: new_orders_to_add_def)
  next
    case (Inr result)
    from fetch_try_incremental[OF mode run[unfolded Inr]] obtain k where
      "inc_loop server (spec_watermark (drop 1 col)) 0 [] = Some (Inr (k * 100, result))" by blast
    from loop[OF this] Inr show ?thesis by (simp add: new_orders_to_add_def)
  qed
  with no newly_fetched_drop[OF no] loop show ?thesis by blast
qed

theorem falsy_order_number_excluded_witness:
  "keep_order 5 (JObj [(''orderNumber'', JInt 0)]) = Inr False
   \<and> keep_order 5 (JObj [(''orderNumber'', JNull)]) = Inr False
   \<and> keep_order 5 (JObj [(''createDate'', JStr ''2025-04-01'')]) = Inr False
   \<and> newly_fetched 5 ([JObj [(''orderNumber'', JInt 7)]] @ JObj [(''orderNumber'', JInt 0)]
          # [JObj [(''orderNumber'', JInt 3)]]) = Inr [JObj [(''orderNumber'', JInt 7)]]"
proof -
  have "keep_order 5 (JObj [(''orderNumber'', JInt 0)]) = Inr False"
    using falsy_order_number_excluded[of "[(''orderNumber'', JInt 0)]" 5] by simp
  moreover have "keep_order 5 (JObj [(''orderNumber'', JNull)]) = Inr False"
    using falsy_order_number_excluded[of "[(''orderNumber'', JNull)]" 5] by simp
  moreover have "keep_order 5 (JObj [(''createDate'', JStr ''2025-04-01'')]) = Inr False"
    using falsy_order_number_excluded[of "[(''createDate'', JStr ''2025-04-01'')]" 5] by simp
  moreover have "newly_fetched 5 ([JObj [(''orderNumber'', JInt 7)]] @ JObj [(''orderNumber'', JInt 0)]
          # [JObj [(''orderNumber'', JInt 3)]])
      = newly_fetched 5 ([JObj [(''orderNumber'', JInt 7)]] @ [JObj [(''orderNumber'', JInt 3)]])"
    using falsy_order_number_excluded[of "[(''orderNumber'', JInt 0)]" 5
        "[JObj [(''orderNumber'', JInt 7)]]" "[JObj [(''orderNumber'', JInt 3)]]"] by simp
  moreover have "newly_fetched 5 ([JObj [(''orderNumber'', JInt 7)]] @ [JObj [(''orderNumber'', JInt 3)]])
      = Inr [JObj [(''orderNumber'', JInt 7)]]"
    by (simp add: keep_order_def)
  ultimately show ?thesis by simp
qed

section \<open>Properties of the flattening\<close>


lemma last_option_value_Cons:
  "last_option_value key dflt (opt # opts) =
     last_option_value key (if normalize_option (option_name opt) = key then option_value opt else dflt) opts"
  by (cases "rev (filter (\<lambda>opt. normalize_option (option_name opt) = key) opts)")
     (auto simp: last_option_value_def)

lemma is_option_get:
  "is_option opt \<Longrightarrow>
     py_get opt ''name'' (JStr []) = Inr (JStr (option_name opt))
     \<and> py_get opt ''value'' JNull = Inr (option_value opt)"
  by (cases opt) (auto simp: is_option_def option_name_def option_value_def split: option.splits json.splits)

lemma apply_options_eq:
  "list_all is_option opts \<Longrightarrow>
     apply_options row opts =
       Inr (row\<lparr>category := last_option_value ''category'' (category row) opts,
               size' := last_option_value ''size'' (size' row) opts,
               color := last_option_value ''color'' (color row) opts\<rparr>)"
proof (induction opts arbitrary: row)
  case Nil
  then show ?case by (simp add: last_option_value_def)
next
  case (Cons opt opts)
  from Cons.prems have o: "is_option opt" and os: "list_all is_option opts" by simp_all
  note g = is_option_get[OF o]
  show ?case
    unfolding last_option_value_Cons
    by (simp add: g Cons.IH[OF os] Let_def)
qed


lemma apply_options_irrelevant:
  "list_all is_option opts \<Longrightarrow>
     apply_options row opts =
       apply_options row
         (filter (\<lambda>opt. normalize_option (option_name opt) \<in> {''color'', ''size'', ''category''}) opts)"
proof (induction opts arbitrary: row)
  case Nil
  then show ?case by simp
next
  case (Cons opt opts)
  from Cons.prems have o: "is_option opt" and os: "list_all is_option opts" by simp_all
  note g = is_option_get[OF o]
  show ?case by (simp add: g Cons.IH[OF os] Let_def)
qed

lemma is_line_item_get:
  "is_line_item item \<Longrightarrow>
     py_get item ''name'' JNull = Inr (item_name item)
     \<and> (\<exists>selected. py_get item ''selectedOptions'' (JArr []) = Inr selected
           \<and> py_iter selected = Inr (selected_options item))
     \<and> list_all is_option (selected_options item)"
  by (cases item)
     (auto simp: is_line_item_def item_name_def selected_options_def split: option.splits json.splits)

lemma flatten_item_eq:
  assumes "is_line_item item"
  shows "flatten_item fmt num item =
     Inr \<lparr>create_date = fmt, order_number = num, product_name = item_name item,
          category = last_option_value ''category'' JNull (selected_options item),
          size' = last_option_value ''size'' JNull (selected_options item),
          color = last_option_value ''color'' JNull (selected_options item)\<rparr>"
proof -
  from is_line_item_get[OF assms] obtain selected where
    nm: "py_get item ''name'' JNull = Inr (item_name item)"
    and sel: "py_get item ''selectedOptions'' (JArr []) = Inr selected"
    and it: "py_iter selected = Inr (selected_options item)"
    and os: "list_all is_option (selected_options item)"
    by blast
  show ?thesis
    by (simp add: flatten_item_def nm sel it apply_options_eq[OF os])
qed

lemma flatten_items_eq:
  "list_all is_line_item items \<Longrightarrow>
     flatten_items fmt num items =
       Inr (map (\<lambda>item. \<lparr>create_date = fmt, order_number = num, product_name = item_name item,
          category = last_option_value ''category'' JNull (selected_options item),
          size' = last_option_value ''size'' JNull (selected_options item),
          color = last_option_value ''color'' JNull (selected_options item)\<rparr>) items)"
  by (induction items) (simp_all add: flatten_item_eq)

lemma apply_options_shared:
  "apply_options row opts = Inr r \<Longrightarrow>
     create_date r = create_date row \<and> order_number r = order_number row
     \<and> product_name r = product_name row"
proof (induction opts arbitrary: row)
  case Nil
  then show ?case by simp
next
  case (Cons opt opts)
  from Cons.prems obtain row' where "apply_options row' opts = Inr r"
    and "create_date row' = create_date row" "order_number row' = order_number row"
    "product_name row' = product_name row"
    by (auto split: sum.splits json.splits if_splits simp: Let_def)
  with Cons.IH[of row'] show ?case by simp
qed

lemma flatten_item_shared:
  "flatten_item fmt num item = Inr r \<Longrightarrow> create_date r = fmt \<and> order_number r = num"
  by (auto simp: flatten_item_def split: sum.splits dest!: apply_options_shared)

lemma flatten_items_shared:
  "flatten_items fmt num items = Inr rows \<Longrightarrow>
     length rows = length items \<and> (\<forall>r\<in>set rows. create_date r = fmt \<and> order_number r = num)"
proof (induction items arbitrary: rows)
  case Nil
  then show ?case by simp
next
  case (Cons item items)
  from Cons.prems obtain r rs where r: "flatten_item fmt num item = Inr r"
    and rs: "flatten_items fmt num items = Inr rs" and rows: "rows = r # rs"
    by (auto split: sum.splits)
  from flatten_item_shared[OF r] Cons.IH[OF rs] rows show ?case by simp
qed


text \<open>
  C6: for a line item (a dict whose options are dicts with string names), each of the
  row fields color, size and category is the value of the last option, in the order of
  \<^verbatim>\<open>selectedOptions\<close>, whose normalised name is that key, or null when there is none;
  the options whose names normalise to anything else (\<^verbatim>\<open>designer_category\<close>,
  \<^verbatim>\<open>thickness\<close>, a slug) can be removed without changing the row.
\<close>

theorem option_mapping:
  assumes "is_line_item item"
  shows "(\<exists>r. flatten_item fmt num item = Inr r
            \<and> color r = last_option_value ''color'' JNull (selected_options item)
            \<and> size' r = last_option_value ''size'' JNull (selected_options item)
            \<and> category r = last_option_value ''category'' JNull (selected_options item))
    \<and> (\<forall>row. apply_options row (selected_options item) =
          apply_options row
            (filter (\<lambda>opt. normalize_option (option_name opt) \<in> {''color'', ''size'', ''category''})
               (selected_options item)))"
proof -
  from is_line_item_get[OF assms] have os: "list_all is_option (selected_options item)" by blast
  from flatten_item_eq[OF assms, of fmt num] apply_options_irrelevant[OF os]
  show ?thesis by simp
qed

lemma normalize_option_examples:
  "normalize_option ''COLOUR'' = ''color'' \<and> normalize_option ''colour'' = ''color''
   \<and> normalize_option ''sizing'' = ''size'' \<and> normalize_option ''Designer Category'' = ''category''
   \<and> normalize_option ''Designer'' = ''designer_category''
   \<and> normalize_option ''Thickness'' = ''thickness''
   \<and> normalize_option ''Fabric Type'' = ''fabric_type''"
  by code_simp

theorem option_mapping_witness:
  "\<exists>r. flatten_item (JStr ''01-04-2025 11:00:00'') (JInt 500)
         (JObj [(''name'', JStr ''Tee''),
                (''selectedOptions'', JArr [
                   JObj [(''name'', JStr ''Colour''), (''value'', JStr ''Red'')],
                   JObj [(''name'', JStr ''sizing''), (''value'', JStr ''M'')],
                   JObj [(''name'', JStr ''Thickness''), (''value'', JStr ''2mm'')],
                   JObj [(''name'', JStr ''COLOR''), (''value'', JStr ''Blue'')],
                   JObj [(''name'', JStr ''Designer''), (''value'', JStr ''Ade'')]])]) = Inr r
       \<and> color r = JStr ''Blue'' \<and> size' r = JStr ''M'' \<and> category r = JNull"
proof -
  let ?item = "JObj [(''name'', JStr ''Tee''),
                (''selectedOptions'', JArr [
                   JObj [(''name'', JStr ''Colour''), (''value'', JStr ''Red'')],
                   JObj [(''name'', JStr ''sizing''), (''value'', JStr ''M'')],
                   JObj [(''name'', JStr ''Thickness''), (''value'', JStr ''2mm'')],
                   JObj [(''name'', JStr ''COLOR''), (''value'', JStr ''Blue'')],
                   JObj [(''name'', JStr ''Designer''), (''value'', JStr ''Ade'')]])]"
  have wf: "is_line_item ?item" by (simp add: is_line_item_def is_option_def)
  have c: "last_option_value ''color'' JNull (selected_options ?item) = JStr ''Blue''" by code_simp
  have s: "last_option_value ''size'' JNull (selected_options ?item) = JStr ''M''" by code_simp
  have g: "last_option_value ''category'' JNull (selected_options ?item) = JNull" by code_simp
  from option_mapping[OF wf, of "JStr ''01-04-2025 11:00:00''" "JInt 500"] c s g
  show ?thesis by simp
qed


lemma try_formats_none:
  "(\<forall>fmt\<in>set fmts. strptime lib s fmt = None) \<Longrightarrow> try_formats lib s fmts = Inr None"
  by (induction fmts) auto

lemma try_formats_first:
  "(\<forall>f\<in>set pre. strptime lib s f = None) \<Longrightarrow> strptime lib s fmt = Some d \<Longrightarrow>
   astimezone_lagos lib (if tzinfo_is_None lib d then replace_tzinfo_utc lib d else d) = Inr d' \<Longrightarrow>
   try_formats lib s (pre @ fmt # post) = Inr (Some d')"
  by (induction pre) auto

lemma flatten_order_shared:
  assumes "py_get order ''createDate'' JNull = Inr raw"
    and "parse_and_standardize_date lib raw = Inr parsed"
    and "py_get order ''orderNumber'' JNull = Inr num"
    and "flatten_order lib order = Inr rows"
  shows "\<forall>r\<in>set rows. create_date r = (case parsed of Some d \<Rightarrow> JStr (strftime lib d) | None \<Rightarrow> raw)
            \<and> order_number r = num"
proof -
  let ?fmt = "case parsed of Some d \<Rightarrow> JStr (strftime lib d) | None \<Rightarrow> raw"
  from assms obtain its where its: "py_get order ''items'' JNull = Inr its"
    by (auto simp: flatten_order_def Let_def split: sum.splits)
  show ?thesis
  proof (cases "truthy its")
    case False
    with assms its show ?thesis by (auto simp: flatten_order_def Let_def)
  next
    case True
    with assms its obtain items where "flatten_items ?fmt num items = Inr rows"
      by (auto simp: flatten_order_def Let_def split: sum.splits)
    from flatten_items_shared[OF this] show ?thesis by blast
  qed
qed

text \<open>
  C9: \<^verbatim>\<open>parse_and_standardize_date\<close> returns \<^verbatim>\<open>None\<close>, raising nothing, when the raw
  value is null or the empty string, and when no format of the fixed list parses the
  string; when a format parses it and no earlier one does, the result is that datetime,
  read as UTC if it carries no offset, converted to Africa/Lagos; and when the parse
  gives \<^verbatim>\<open>None\<close>, every row of the order carries the raw value as its
  \<^verbatim>\<open>create_date\<close>.
\<close>

theorem date_normalization:
  "(raw = JNull \<or> raw = JStr [] \<longrightarrow> parse_and_standardize_date lib raw = Inr None)
   \<and> ((\<forall>fmt\<in>set ECWID_DATE_FORMATS. strptime lib s fmt = None) \<longrightarrow>
         parse_and_standardize_date lib (JStr s) = Inr None)
   \<and> (\<forall>pre fmt post d d'.
         s \<noteq> [] \<and> ECWID_DATE_FORMATS = pre @ fmt # post
         \<and> (\<forall>f\<in>set pre. strptime lib s f = None) \<and> strptime lib s fmt = Some d
         \<and> astimezone_lagos lib (if tzinfo_is_None lib d then replace_tzinfo_utc lib d else d) = Inr d'
         \<longrightarrow> parse_and_standardize_date lib (JStr s) = Inr (Some d'))
   \<and> (\<forall>order rows. py_get order ''createDate'' JNull = Inr raw
         \<and> parse_and_standardize_date lib raw = Inr None
         \<and> flatten_order lib order = Inr rows
         \<longrightarrow> (\<forall>r\<in>set rows. create_date r = raw))"
proof -
  have a: "raw = JNull \<or> raw = JStr [] \<longrightarrow> parse_and_standardize_date lib raw = Inr None"
    by (auto simp: parse_and_standardize_date_def)
  have b: "(\<forall>fmt\<in>set ECWID_DATE_FORMATS. strptime lib s fmt = None) \<longrightarrow>
         parse_and_standardize_date lib (JStr s) = Inr None"
    by (auto simp: parse_and_standardize_date_def intro: try_formats_none)
  have c: "parse_and_standardize_date lib (JStr s) = Inr (Some d')"
    if "s \<noteq> []" "ECWID_DATE_FORMATS = pre @ fmt # post"
      "\<forall>f\<in>set pre. strptime lib s f = None" "strptime lib s fmt = Some d"
      "astimezone_lagos lib (if tzinfo_is_None lib d then replace_tzinfo_utc lib d else d) = Inr d'"
    for pre fmt post d d'
    using try_formats_first[OF that(3,4,5), of post] that(1,2)
    by (simp add: parse_and_standardize_date_def)
  have d: "\<forall>r\<in>set rows. create_date r = raw"
    if "py_get order ''createDate'' JNull = Inr raw" "parse_and_standardize_date lib raw = Inr None"
      "flatten_order lib order = Inr rows" for order rows
  proof -
    from that(3) obtain num where "py_get order ''orderNumber'' JNull = Inr num"
      by (auto simp: flatten_order_def Let_def split: sum.splits)
    from flatten_order_shared[OF that(1,2) this that(3)] show ?thesis by simp
  qed
  from a b c d show ?thesis by blast
qed

text \<open>
  C5: an order whose \<^verbatim>\<open>items\<close> is absent, null or the empty list flattens to exactly
  one row whose product name, category, size and color are null; an order with a list
  of N items, N at least 1, flattens to exactly N rows, all with the order's
  \<^verbatim>\<open>create_date\<close> and \<^verbatim>\<open>order_number\<close>, whenever flattening returns, and it does
  return, one row per item in order, when the items are line items.
\<close>

theorem flattening_cardinality:
  assumes "py_get order ''createDate'' JNull = Inr raw"
    and "parse_and_standardize_date lib raw = Inr parsed"
    and "py_get order ''orderNumber'' JNull = Inr num"
    and "py_get order ''items'' JNull = Inr its"
  shows "(its = JNull \<or> its = JArr [] \<longrightarrow>
            flatten_order lib order =
              Inr [\<lparr>create_date = (case parsed of Some d \<Rightarrow> JStr (strftime lib d) | None \<Rightarrow> raw),
                    order_number = num, product_name = JNull, category = JNull,
                    size' = JNull, color = JNull\<rparr>])
    \<and> (\<forall>items. its = JArr items \<and> items \<noteq> [] \<longrightarrow>
          (\<forall>rows. flatten_order lib order = Inr rows \<longrightarrow>
              length rows = length items
              \<and> (\<forall>r\<in>set rows.
                    create_date r = (case parsed of Some d \<Rightarrow> JStr (strftime lib d) | None \<Rightarrow> raw)
                    \<and> order_number r = num))
          \<and> (list_all is_line_item items \<longrightarrow>
                (\<exists>rows. flatten_order lib order = Inr rows \<and> length rows = length items
                   \<and> map product_name rows = map item_name items)))"
proof -
  let ?fmt = "case parsed of Some d \<Rightarrow> JStr (strftime lib d) | None \<Rightarrow> raw"
  have none: "its = JNull \<or> its = JArr [] \<longrightarrow>
            flatten_order lib order =
              Inr [\<lparr>create_date = ?fmt, order_number = num, product_name = JNull, category = JNull,
                    size' = JNull, color = JNull\<rparr>]"
    using assms by (auto simp: flatten_order_def Let_def)
  have fl: "flatten_order lib order = flatten_items ?fmt num items"
    if "its = JArr items" "items \<noteq> []" for items
    using assms that by (simp add: flatten_order_def Let_def)
  have some: "length rows = length items \<and> (\<forall>r\<in>set rows. create_date r = ?fmt \<and> order_number r = num)"
    if "its = JArr items" "items \<noteq> []" "flatten_order lib order = Inr rows" for items rows
    using flatten_items_shared[of ?fmt num items rows] fl[OF that(1,2)] that(3) by simp
  have tot: "\<exists>rows. flatten_order lib order = Inr rows \<and> length rows = length items
                   \<and> map product_name rows = map item_name items"
    if "its = JArr items" "items \<noteq> []" "list_all is_line_item items" for items
    using flatten_items_eq[OF that(3), of ?fmt num] fl[OF that(1,2)] by (simp add: comp_def)
  from none some tot show ?thesis by blast
qed


theorem date_normalization_witness:
  "parse_and_standardize_date example_date_lib JNull = Inr None
   \<and> parse_and_standardize_date example_date_lib (JStr ''yesterday'') = Inr None
   \<and> parse_and_standardize_date example_date_lib (JStr ''2025-04-01'')
        = Inr (Some (''2025-04-01 01:00:00'', True))
   \<and> (\<exists>rows. flatten_order example_date_lib
          (JObj [(''createDate'', JStr ''yesterday''), (''orderNumber'', JInt 9)]) = Inr rows
        \<and> rows \<noteq> [] \<and> list_all (\<lambda>r. create_date r = JStr ''yesterday'') rows)"
proof -
  let ?L = example_date_lib
  let ?order = "JObj [(''createDate'', JStr ''yesterday''), (''orderNumber'', JInt 9)]"
  note T0 = date_normalization[of JNull ?L "''yesterday''"]
  note T1 = date_normalization[of "JStr ''yesterday''" ?L "''2025-04-01''"]
  have a: "parse_and_standardize_date ?L JNull = Inr None"
    using T0 by simp
  have b: "parse_and_standardize_date ?L (JStr ''yesterday'') = Inr None"
    by (rule T0[THEN conjunct2, THEN conjunct1, rule_format])
       (simp add: example_date_lib_def ECWID_DATE_FORMATS_def)
  have c: "parse_and_standardize_date ?L (JStr ''2025-04-01'') = Inr (Some (''2025-04-01 01:00:00'', True))"
    by (rule T1[THEN conjunct2, THEN conjunct2, THEN conjunct1, rule_format,
          of "[''%Y-%m-%d %H:%M:%S %z'', ''%Y-%m-%d %H:%M:%S'']" "''%Y-%m-%d''" "[]"
             "(''2025-04-01'', False)"])
       (simp add: example_date_lib_def ECWID_DATE_FORMATS_def)
  have run: "flatten_order ?L ?order =
      Inr [\<lparr>create_date = JStr ''yesterday'', order_number = JInt 9, product_name = JNull,
            category = JNull, size' = JNull, color = JNull\<rparr>]"
    by (simp add: flatten_order_def b)
  have "\<forall>r\<in>set [\<lparr>create_date = JStr ''yesterday'', order_number = JInt 9, product_name = JNull,
            category = JNull, size' = JNull, color = JNull\<rparr>]. create_date r = JStr ''yesterday''"
    using T1[THEN conjunct2, THEN conjunct2, THEN conjunct2, THEN spec, THEN spec, THEN mp,
        of ?order "[\<lparr>create_date = JStr ''yesterday'', order_number = JInt 9, product_name = JNull,
            category = JNull, size' = JNull, color = JNull\<rparr>]"] b run
    by simp
  with a b c run show ?thesis by simp
qed

theorem flattening_cardinality_witness:
  "flatten_order example_date_lib (JObj [(''orderNumber'', JInt 7)])
     = Inr [\<lparr>create_date = JNull, order_number = JInt 7, product_name = JNull, category = JNull,
             size' = JNull, color = JNull\<rparr>]
   \<and> (\<exists>rows. flatten_order example_date_lib
          (JObj [(''orderNumber'', JInt 8), (''createDate'', JStr ''yesterday''),
                 (''items'', JArr [JObj [(''name'', JStr ''Tee'')], JObj [(''name'', JStr ''Cap'')]])])
          = Inr rows
        \<and> length rows = 2 \<and> map product_name rows = [JStr ''Tee'', JStr ''Cap'']
        \<and> list_all (\<lambda>r. create_date r = JStr ''yesterday'' \<and> order_number r = JInt 8) rows)"
proof -
  let ?L = example_date_lib
  let ?o7 = "JObj [(''orderNumber'', JInt 7)]"
  let ?o8 = "JObj [(''orderNumber'', JInt 8), (''createDate'', JStr ''yesterday''),
                 (''items'', JArr [JObj [(''name'', JStr ''Tee'')], JObj [(''name'', JStr ''Cap'')]])]"
  have p0: "parse_and_standardize_date ?L JNull = Inr None"
    by (simp add: parse_and_standardize_date_def)
  have p1: "parse_and_standardize_date ?L (JStr ''yesterday'') = Inr None"
    by (simp add: parse_and_standardize_date_def example_date_lib_def ECWID_DATE_FORMATS_def)
  have T7: "py_get ?o7 ''createDate'' JNull = Inr JNull" "py_get ?o7 ''orderNumber'' JNull = Inr (JInt 7)"
    "py_get ?o7 ''items'' JNull = Inr JNull" by simp_all
  have T8: "py_get ?o8 ''createDate'' JNull = Inr (JStr ''yesterday'')"
    "py_get ?o8 ''orderNumber'' JNull = Inr (JInt 8)"
    "py_get ?o8 ''items'' JNull = Inr (JArr [JObj [(''name'', JStr ''Tee'')], JObj [(''name'', JStr ''Cap'')]])"
    by simp_all
  note C7 = flattening_cardinality[OF T7(1) p0 T7(2) T7(3)]
  note C8 = flattening_cardinality[OF T8(1) p1 T8(2) T8(3)]
  have a: "flatten_order ?L ?o7
     = Inr [\<lparr>create_date = JNull, order_number = JInt 7, product_name = JNull, category = JNull,
             size' = JNull, color = JNull\<rparr>]"
    using C7 by simp
  have wf: "list_all is_line_item [JObj [(''name'', JStr ''Tee'')], JObj [(''name'', JStr ''Cap'')]]"
    by (simp add: is_line_item_def)
  from C8[THEN conjunct2, rule_format, of "[JObj [(''name'', JStr ''Tee'')], JObj [(''name'', JStr ''Cap'')]]"]
  have all: "\<forall>rows. flatten_order ?L ?o8 = Inr rows \<longrightarrow>
              length rows = length [JObj [(''name'', JStr ''Tee'')], JObj [(''name'', JStr ''Cap'')]]
              \<and> (\<forall>r\<in>set rows. create_date r = (case None of Some d \<Rightarrow> JStr (strftime ?L d) | None \<Rightarrow> JStr ''yesterday'')
                    \<and> order_number r = JInt 8)"
    and ex: "list_all is_line_item [JObj [(''name'', JStr ''Tee'')], JObj [(''name'', JStr ''Cap'')]] \<longrightarrow>
        (\<exists>rows. flatten_order ?L ?o8 = Inr rows
           \<and> length rows = length [JObj [(''name'', JStr ''Tee'')], JObj [(''name'', JStr ''Cap'')]]
           \<and> map product_name rows = map item_name [JObj [(''name'', JStr ''Tee'')], JObj [(''name'', JStr ''Cap'')]])"
    by simp_all
  from ex wf obtain rows where rows: "flatten_order ?L ?o8 = Inr rows"
    "map product_name rows = map item_name [JObj [(''name'', JStr ''Tee'')], JObj [(''name'', JStr ''Cap'')]]"
    by blast
  from all rows(1) have "length rows = 2"
    "\<forall>r\<in>set rows. create_date r = JStr ''yesterday'' \<and> order_number r = JInt 8" by auto
  with rows a show ?thesis by (auto simp: item_name_def list_all_iff)
qed

section \<open>Properties of the cleaning and the sort\<close>

lemma map_err_Inr:
  "map_err f xs = Inr ys \<Longrightarrow> list_all2 (\<lambda>x y. f x = Inr y) xs ys"
proof (induction xs arbitrary: ys)
  case Nil
  then show ?case by simp
next
  case (Cons x xs)
  from Cons.prems obtain y ys' where y: "f x = Inr y" and r: "map_err f xs = Inr ys'"
    and ys: "ys = y # ys'"
    by (auto split: sum.splits)
  from Cons.IH[OF r] y ys show ?case by simp
qed

lemma clean_Nil: "clean_dataframe_for_gspread pd [] = Inr []"
  by (simp add: clean_dataframe_for_gspread_def)

lemma clean_numbers:
  assumes "clean_dataframe_for_gspread pd rows = Inr cleaned"
  shows "list_all2 (\<lambda>r c. to_numeric pd (map order_number rows) (order_number r)
                            = Inr (numeric_order_number c)) rows cleaned"
proof -
  let ?mk = "\<lambda>(d, n, p, c, s, k).
                      \<lparr>clean_create_date = d, numeric_order_number = n, clean_product_name = p,
                       clean_category = c, clean_size = s, clean_color = k\<rparr>"
  let ?names = "map (id_column pd (map product_name rows)) [0..<length rows]"
  from assms obtain dates numbers categories sizes colors where
    d: "map_err (clean_cell pd) (map create_date rows) = Inr dates"
    and n: "map_err (to_numeric pd (map order_number rows)) (map order_number rows) = Inr numbers"
    and c: "map_err (clean_cell pd) (map category rows) = Inr categories"
    and s: "map_err (clean_cell pd) (map size' rows) = Inr sizes"
    and k: "map_err (clean_cell pd) (map color rows) = Inr colors"
    and cl: "cleaned = map ?mk (zip dates (zip numbers (zip ?names (zip categories (zip sizes colors)))))"
    by (auto simp: clean_dataframe_for_gspread_def split: sum.splits)
  note ld = list_all2_lengthD[OF map_err_Inr[OF d]]
    and ln = list_all2_lengthD[OF map_err_Inr[OF n]]
    and lc = list_all2_lengthD[OF map_err_Inr[OF c]]
    and ls = list_all2_lengthD[OF map_err_Inr[OF s]]
    and lk = list_all2_lengthD[OF map_err_Inr[OF k]]
  from ld ln lc ls lk have len: "length cleaned = length rows" by (simp add: cl)
  have nth: "numeric_order_number (cleaned ! i) = numbers ! i" if "i < length rows" for i
    using that ld ln lc ls lk by (simp add: cl)
  have "to_numeric pd (map order_number rows) (order_number (rows ! i)) = Inr (numbers ! i)"
    if "i < length rows" for i
    using list_all2_nthD[OF map_err_Inr[OF n], of i] that by simp
  with nth len show ?thesis by (simp add: list_all2_conv_all_nth)
qed

lemma pick_nth: "\<forall>i\<in>set idx. i < length xs \<Longrightarrow> pick xs idx = map (\<lambda>i. xs ! i) idx"
  by (induction idx) (simp_all add: pick_def)

lemma pick_Nil: "pick [] idx = []"
  by (simp add: pick_def)

lemma pick_perm:
  assumes "mset idx = mset [0..<length xs]"
  shows "mset (pick xs idx) = mset xs"
proof -
  from assms have "set idx = set [0..<length xs]" by (rule mset_eq_setD)
  then have "\<forall>i\<in>set idx. i < length xs" by simp
  then have "mset (pick xs idx) = mset (map (\<lambda>i. xs ! i) idx)" by (simp add: pick_nth)
  also have "\<dots> = image_mset (\<lambda>i. xs ! i) (mset idx)" by simp
  also have "\<dots> = mset (map (\<lambda>i. xs ! i) [0..<length xs])" by (simp add: assms)
  also have "\<dots> = mset xs" by (simp add: map_nth)
  finally show ?thesis .
qed

lemma map_filter_numbers:
  "List.map_filter numeric_order_number df
     = map (\<lambda>r. the (numeric_order_number r)) (filter (\<lambda>r. numeric_order_number r \<noteq> None) df)"
  by (simp add: List.map_filter_def comp_def)

lemma sort_values_Nil: "sort_values pd [] = []"
  by (simp add: sort_values_def pick_Nil)

lemma sort_values_mset:
  assumes "\<forall>ks. mset (argsort pd ks) = mset [0..<length ks]"
  shows "mset (sort_values pd df) = mset df"
proof -
  let ?numbered = "filter (\<lambda>r. numeric_order_number r \<noteq> None) df"
  let ?ks = "List.map_filter numeric_order_number df"
  have "length ?ks = length ?numbered" by (simp add: map_filter_numbers)
  with assms have "mset (argsort pd ?ks) = mset [0..<length ?numbered]" by simp
  then have "mset (pick ?numbered (argsort pd ?ks)) = mset ?numbered" by (rule pick_perm)
  then show ?thesis by (simp add: sort_values_def)
qed

lemma sort_values_sorted:
  assumes "\<forall>ks. mset (argsort pd ks) = mset [0..<length ks]
                \<and> sorted (map (\<lambda>i. ks ! i) (argsort pd ks))"
  shows "sorted (map (\<lambda>r. the (numeric_order_number r))
           (pick (filter (\<lambda>r. numeric_order_number r \<noteq> None) df)
                 (argsort pd (List.map_filter numeric_order_number df))))"
proof -
  let ?numbered = "filter (\<lambda>r. numeric_order_number r \<noteq> None) df"
  let ?ks = "List.map_filter numeric_order_number df"
  let ?idx = "argsort pd ?ks"
  have ks: "?ks = map (\<lambda>r. the (numeric_order_number r)) ?numbered" by (rule map_filter_numbers)
  then have len: "length ?ks = length ?numbered" by simp
  from assms have "mset ?idx = mset [0..<length ?ks]" by simp
  then have "set ?idx = set [0..<length ?ks]" by (rule mset_eq_setD)
  with len have bound: "\<forall>i\<in>set ?idx. i < length ?numbered" by simp
  then have "map (\<lambda>r. the (numeric_order_number r)) (pick ?numbered ?idx)
      = map (\<lambda>i. the (numeric_order_number (?numbered ! i))) ?idx"
    by (simp add: pick_nth comp_def)
  also have "\<dots> = map (\<lambda>i. ?ks ! i) ?idx"
    using bound by (intro map_cong refl) (simp add: ks)
  finally show ?thesis using assms by simp
qed

lemma pick_subset: "set (pick xs idx) \<subseteq> set xs"
  by (auto simp: pick_def)

lemma example_argsort:
  "mset (argsort example_pandas_lib ks) = mset [0..<length ks]
   \<and> sorted (map (\<lambda>i. ks ! i) (argsort example_pandas_lib ks))"
proof -
  let ?zs = "zip ks [0..<length ks]"
  have a: "argsort example_pandas_lib ks = map snd (sort_key fst ?zs)"
    by (simp add: example_pandas_lib_def)
  have "mset (map snd (sort_key fst ?zs)) = image_mset snd (mset (sort_key fst ?zs))" by simp
  also have "\<dots> = image_mset snd (mset ?zs)" by simp
  also have "\<dots> = mset (map snd ?zs)" by (simp only: mset_map)
  also have "\<dots> = mset [0..<length ks]" by (simp only: map_snd_zip length_upt diff_zero)
  finally have p: "mset (map snd (sort_key fst ?zs)) = mset [0..<length ks]" .
  have "ks ! snd z = fst z" if "z \<in> set (sort_key fst ?zs)" for z
    using that by (auto simp: set_zip)
  then have eq: "map (\<lambda>z. ks ! snd z) (sort_key fst ?zs) = map fst (sort_key fst ?zs)"
    by (intro map_cong refl)
  have "sorted (map fst (sort_key fst ?zs))" by (rule sorted_sort_key)
  then have "sorted (map (\<lambda>z. ks ! snd z) (sort_key fst ?zs))" by (simp only: eq)
  moreover have "map (\<lambda>i. ks ! i) (map snd (sort_key fst ?zs))
      = map (\<lambda>z. ks ! snd z) (sort_key fst ?zs)"
    by (simp only: map_map comp_def)
  ultimately have "sorted (map (\<lambda>i. ks ! i) (map snd (sort_key fst ?zs)))"
    by (simp only:)
  with p a show ?thesis by simp
qed

section \<open>Properties of the run\<close>

subsection \<open>The rows handed to the append\<close>

lemma run_Completed:
  assumes "run lib pd e = Some (Completed rows n lg)"
  shows "\<exists>fetched new_rows cleaned. fetch_try (env_col_values e) (env_server e) = Some fetched
      \<and> flatten_all lib (new_orders_to_add fetched) = Inr new_rows
      \<and> clean_dataframe_for_gspread pd new_rows = Inr cleaned
      \<and> rows = sort_values pd cleaned"
  using assms
  by (auto simp: run_def Let_def split: option.splits sum.splits if_splits)

text \<open>
  C7: when the sort of the indices sorts (what it returns is a permutation of the indices
  that puts the keys in ascending order), the rows a completed run has handed to the
  append are the cleaned rows in another order: first the rows that have a numeric order
  number, ascending by it, then the rows whose number is null, in the order the
  flattening gave them. The numeric order number of a row is the coercion of its
  \<^verbatim>\<open>order_number\<close>: null for null, the integer for an integer of magnitude at most
  \<open>2 ^ 53\<close> (orders numbered 105, 103 and 107 come out as 103, 105, 107).
\<close>

theorem output_ordering:
  assumes sorter: "\<forall>ks. mset (argsort pd ks) = mset [0..<length ks]
                       \<and> sorted (map (\<lambda>i. ks ! i) (argsort pd ks))"
    and completed: "run lib pd e = Some (Completed rows n lg)"
  shows "\<exists>fetched new_rows cleaned numbered nulls.
        fetch_try (env_col_values e) (env_server e) = Some fetched
      \<and> flatten_all lib (new_orders_to_add fetched) = Inr new_rows
      \<and> clean_dataframe_for_gspread pd new_rows = Inr cleaned
      \<and> list_all2 (\<lambda>r c. to_numeric pd (map order_number new_rows) (order_number r)
                            = Inr (numeric_order_number c)
                        \<and> (order_number r = JNull \<longrightarrow> numeric_order_number c = None)
                        \<and> (\<forall>m. order_number r = JInt m \<and> float_exact m
                               \<longrightarrow> numeric_order_number c = Some m)) new_rows cleaned
      \<and> mset rows = mset cleaned
      \<and> rows = numbered @ nulls
      \<and> (\<forall>r\<in>set numbered. numeric_order_number r \<noteq> None)
      \<and> sorted (map (\<lambda>r. the (numeric_order_number r)) numbered)
      \<and> nulls = filter (\<lambda>r. numeric_order_number r = None) cleaned"
proof -
  from run_Completed[OF completed] obtain fetched new_rows cleaned where
    f: "fetch_try (env_col_values e) (env_server e) = Some fetched"
    and fl: "flatten_all lib (new_orders_to_add fetched) = Inr new_rows"
    and cl: "clean_dataframe_for_gspread pd new_rows = Inr cleaned"
    and rows: "rows = sort_values pd cleaned"
    by blast
  let ?numbered = "pick (filter (\<lambda>r. numeric_order_number r \<noteq> None) cleaned)
                        (argsort pd (List.map_filter numeric_order_number cleaned))"
  let ?nulls = "filter (\<lambda>r. numeric_order_number r = None) cleaned"
  have split: "rows = ?numbered @ ?nulls" by (simp add: rows sort_values_def)
  have nb: "\<forall>r\<in>set ?numbered. numeric_order_number r \<noteq> None"
    using pick_subset[of "filter (\<lambda>r. numeric_order_number r \<noteq> None) cleaned"] by auto
  have so: "sorted (map (\<lambda>r. the (numeric_order_number r)) ?numbered)"
    using sort_values_sorted[OF sorter] .
  from sorter have "\<forall>ks. mset (argsort pd ks) = mset [0..<length ks]" by simp
  from sort_values_mset[OF this] have ms: "mset rows = mset cleaned" by (simp add: rows)
  have co: "list_all2 (\<lambda>r c. to_numeric pd (map order_number new_rows) (order_number r)
                            = Inr (numeric_order_number c)
                        \<and> (order_number r = JNull \<longrightarrow> numeric_order_number c = None)
                        \<and> (\<forall>m. order_number r = JInt m \<and> float_exact m
                               \<longrightarrow> numeric_order_number c = Some m)) new_rows cleaned"
    by (rule list_all2_mono[OF clean_numbers[OF cl]]) (auto simp: to_numeric_def)
  from f fl cl co ms split nb so show ?thesis by blast
qed




theorem output_ordering_witness:
  "run example_date_lib example_pandas_lib
      \<lparr>env_col_values = Inr [''ORDER NO''],
       env_server = (\<lambda>req. Body (JObj [(''items'',
          JArr [JObj [(''orderNumber'', JInt 105)], JObj [(''email'', JStr ''a@b.c'')],
                JObj [(''orderNumber'', JInt 103)], JObj [(''orderNumber'', JInt 107)]])])),
       env_append_rows = None, env_append_row = None\<rparr>
     = Some (Completed [example_row (Some 103), example_row (Some 105), example_row (Some 107),
                        example_row None] 4 None)
   \<and> (\<exists>numbered nulls.
        [example_row (Some 103), example_row (Some 105), example_row (Some 107), example_row None]
          = numbered @ nulls
        \<and> list_all (\<lambda>r. numeric_order_number r \<noteq> None) numbered
        \<and> sorted (map (\<lambda>r. the (numeric_order_number r)) numbered)
        \<and> nulls = [example_row None])"
proof -
  let ?orders = "[JObj [(''orderNumber'', JInt 105)], JObj [(''email'', JStr ''a@b.c'')],
                JObj [(''orderNumber'', JInt 103)], JObj [(''orderNumber'', JInt 107)]]"
  let ?S = "\<lambda>req. Body (JObj [(''items'', JArr ?orders)])"
  let ?e = "\<lparr>env_col_values = Inr [''ORDER NO''], env_server = ?S,
             env_append_rows = None, env_append_row = None\<rparr>"
  let ?new_rows = "[\<lparr>create_date = JNull, order_number = JInt 105, product_name = JNull,
                      category = JNull, size' = JNull, color = JNull\<rparr>,
                    \<lparr>create_date = JNull, order_number = JNull, product_name = JNull,
                      category = JNull, size' = JNull, color = JNull\<rparr>,
                    \<lparr>create_date = JNull, order_number = JInt 103, product_name = JNull,
                      category = JNull, size' = JNull, color = JNull\<rparr>,
                    \<lparr>create_date = JNull, order_number = JInt 107, product_name = JNull,
                      category = JNull, size' = JNull, color = JNull\<rparr>]"
  let ?cleaned = "[example_row (Some 105), example_row None, example_row (Some 103),
                   example_row (Some 107)]"
  let ?out = "[example_row (Some 103), example_row (Some 105), example_row (Some 107),
               example_row None]"
  have loop: "full_loop ?S 0 [] = Some (Inr (0, ?orders))"
    by (subst full_loop.simps) (simp add: fetch_page_def limit_def)
  then have f: "fetch_try (Inr [''ORDER NO'']) ?S = Some (Inr ?orders)"
    by (simp add: fetch_try_def select_mode_def)
  have fl: "flatten_all example_date_lib ?orders = Inr ?new_rows"
    by (simp add: flatten_order_def parse_and_standardize_date_def)
  have cl: "clean_dataframe_for_gspread example_pandas_lib ?new_rows = Inr ?cleaned"
    by (simp add: clean_dataframe_for_gspread_def to_numeric_def clean_cell_def
        example_pandas_lib_def example_row_def float_exact_def upt_rec)
  have so: "sort_values example_pandas_lib ?cleaned = ?out"
    by (simp add: sort_values_def example_pandas_lib_def example_row_def pick_def
        List.map_filter_def upt_rec)
  have flat: "flatten_all example_date_lib (new_orders_to_add (Inr ?orders)) = Inr ?new_rows"
    unfolding new_orders_to_add_def sum.case by (rule fl)
  have r: "run example_date_lib example_pandas_lib ?e = Some (Completed ?out 4 None)"
    by (simp add: run_def f flat cl so)
  have sorter: "\<forall>ks. mset (argsort example_pandas_lib ks) = mset [0..<length ks]
                       \<and> sorted (map (\<lambda>i. ks ! i) (argsort example_pandas_lib ks))"
    using example_argsort by blast
  from output_ordering[OF sorter r] obtain fetched new_rows cleaned numbered nulls where
    f': "fetch_try (env_col_values ?e) (env_server ?e) = Some fetched"
    and fl': "flatten_all example_date_lib (new_orders_to_add fetched) = Inr new_rows"
    and c': "clean_dataframe_for_gspread example_pandas_lib new_rows = Inr cleaned"
    and split: "?out = numbered @ nulls"
    and nb: "\<forall>r\<in>set numbered. numeric_order_number r \<noteq> None"
    and sd: "sorted (map (\<lambda>r. the (numeric_order_number r)) numbered)"
    and nl: "nulls = filter (\<lambda>r. numeric_order_number r = None) cleaned"
    by blast
  from f' f have "fetched = Inr ?orders" by simp
  with fl' flat have "new_rows = ?new_rows" by simp
  with c' have c: "clean_dataframe_for_gspread example_pandas_lib ?new_rows = Inr cleaned"
    by simp
  from c cl have "cleaned = ?cleaned" by simp
  with nl have "nulls = [example_row None]" by (simp add: example_row_def)
  with split nb sd have "\<exists>numbered nulls. ?out = numbered @ nulls
        \<and> list_all (\<lambda>r. numeric_order_number r \<noteq> None) numbered
        \<and> sorted (map (\<lambda>r. the (numeric_order_number r)) numbered)
        \<and> nulls = [example_row None]"
    unfolding list_all_iff by blast
  with r show ?thesis by blast
qed

subsection \<open>A fetch that fails\<close>

text \<open>
  C8: when an exception leaves the \<^verbatim>\<open>try\<close> block of the fetch stage (the read of the
  column, a request, a status, the decoding of a body, the filter), the orders to add
  are none, the run does not end with that exception: it completes, having appended no
  row (\<^verbatim>\<open>append_rows\<close> is not called, so what it would raise does not matter), and the
  logging block runs, with the count 0.
\<close>

theorem fetch_failure_degradation:
  assumes "fetch_try (env_col_values e) (env_server e) = Some (Inl err)"
  shows "new_orders_to_add (Inl err) = []
    \<and> run lib pd e = Some (Completed [] 0 (env_append_row e))"
  using assms by (simp add: run_def new_orders_to_add_def clean_Nil sort_values_Nil)

theorem fetch_failure_degradation_witness:
  "fetch_try (Inr [''ORDER NO''])
     (\<lambda>req. case req of
        FullReq off n d \<Rightarrow>
          if off = 0 then Body (JObj [(''items'', JArr (replicate 100 (JObj [(''orderNumber'', JInt 7)])))])
          else TransportFailure
      | IncReq off n \<Rightarrow> BadStatus) = Some (Inl ConnectionError)
   \<and> run example_date_lib example_pandas_lib
       \<lparr>env_col_values = Inr [''ORDER NO''],
        env_server = (\<lambda>req. case req of
          FullReq off n d \<Rightarrow>
            if off = 0 then Body (JObj [(''items'', JArr (replicate 100 (JObj [(''orderNumber'', JInt 7)])))])
            else TransportFailure
        | IncReq off n \<Rightarrow> BadStatus),
        env_append_rows = Some APIError,
        env_append_row = None\<rparr>
      = Some (Completed [] 0 None)"
proof -
  let ?S = "\<lambda>req. case req of
        FullReq off n d \<Rightarrow>
          if off = 0 then Body (JObj [(''items'', JArr (replicate 100 (JObj [(''orderNumber'', JInt 7)])))])
          else TransportFailure
      | IncReq off n \<Rightarrow> BadStatus"
  let ?e = "\<lparr>env_col_values = Inr [''ORDER NO''], env_server = ?S,
             env_append_rows = Some APIError, env_append_row = None\<rparr>"
  have second: "full_loop ?S 100 (replicate 100 (JObj [(''orderNumber'', JInt 7)])) = Some (Inl ConnectionError)"
    by (subst full_loop.simps) (simp add: fetch_page_def limit_def)
  have first: "full_loop ?S 0 [] = Some (Inl ConnectionError)"
    by (subst full_loop.simps) (simp add: fetch_page_def limit_def second)
  have f: "fetch_try (Inr [''ORDER NO'']) ?S = Some (Inl ConnectionError)"
    by (simp add: fetch_try_def select_mode_def first)
  then have "fetch_try (env_col_values ?e) (env_server ?e) = Some (Inl ConnectionError)" by simp
  from fetch_failure_degradation[OF this, of example_date_lib example_pandas_lib] f
  show ?thesis by simp
qed

subsection \<open>Two runs in succession\<close>


































end
